theory Spec2Isabelle
  imports Complex_Main "HOL-Library.AList"
begin

section \<open>Strings and numbers as the Python code uses them\<close>

text \<open>
  Python strings are modelled as \<open>string\<close> (lists of 8-bit characters read as code
  points below 256); Python floats are modelled as exact reals, so \<open>math.log1p x\<close> is
  \<open>ln (1 + x)\<close> and \<open>round(x, 3)\<close> rounds the exact value to the nearest multiple of
  \<open>1/1000\<close>, ties going to the even neighbour as in Python.
\<close>

text \<open>\<^verbatim>\<open>needle in haystack\<close> on strings.\<close>

fun str_contains :: "string \<Rightarrow> string \<Rightarrow> bool" where
  "str_contains needle [] = (needle = [])"
| "str_contains needle (c # cs) =
     (take (length needle) (c # cs) = needle \<or> str_contains needle cs)"

definition round_half_even :: "real \<Rightarrow> int" where
  "round_half_even y =
     (let f = \<lfloor>y\<rfloor>; d = y - of_int f
      in if d < 1 / 2 then f
         else if 1 / 2 < d then f + 1
         else if even f then f else f + 1)"

text \<open>\<^verbatim>\<open>round(x, 3)\<close>\<close>

definition py_round3 :: "real \<Rightarrow> real" where
  "py_round3 x = of_int (round_half_even (x * 1000)) / 1000"

section \<open>Evidence normalisation (agentic\_controller.py)\<close>

text \<open>
  An evidence item is the dictionary built by \<^verbatim>\<open>run_task_search_and_scrape\<close>
  (keys \<^verbatim>\<open>source_id, url, title, snippet, text, domain, score\<close>), to which
  \<^verbatim>\<open>normalize_and_score_evidence\<close> adds the key \<^verbatim>\<open>relevance\<close>. An empty
  string stands for a falsy value of a string key.
\<close>

record evidence =
  source_id :: string
  url :: string
  title :: string
  snippet :: string
  "text" :: string
  domain :: string
  score :: real
  relevance :: "real option"

text \<open>
  \<^verbatim>\<open>key = e.get("url") or e.get("source_id") or _hash_text(e.get("snippet",""))\<close>.
  The SHA-1 hex digest of \<^verbatim>\<open>_hash_text\<close> comes from \<^verbatim>\<open>hashlib\<close>; it is the
  parameter \<open>hash_text\<close>.
\<close>

definition identity_key :: "(string \<Rightarrow> string) \<Rightarrow> evidence \<Rightarrow> string" where
  "identity_key hash_text e =
     (if url e \<noteq> [] then url e
      else if source_id e \<noteq> [] then source_id e
      else hash_text (snippet e))"

text \<open>
  One iteration of the deduplication loop. The dictionary \<^verbatim>\<open>dedup\<close> keeps insertion
  order, and assigning to a key that is present keeps its position: that is
  \<^const>\<open>AList.update\<close> on an association list.
\<close>

definition merge_evidence ::
  "(string \<Rightarrow> string) \<Rightarrow> (string \<times> evidence) list \<Rightarrow> evidence \<Rightarrow> (string \<times> evidence) list" where
  "merge_evidence hash_text dedup e =
     (let key = identity_key hash_text e in
      case map_of dedup key of
        None \<Rightarrow> AList.update key e dedup
      | Some existing \<Rightarrow>
          (let kept = (if length (text existing) < length (text e) then e else existing)
           in AList.update key (kept\<lparr>score := max (score existing) (score e)\<rparr>) dedup))"

definition dedup_evidence ::
  "(string \<Rightarrow> string) \<Rightarrow> evidence list \<Rightarrow> (string \<times> evidence) list" where
  "dedup_evidence hash_text evidence_list = foldl (merge_evidence hash_text) [] evidence_list"

definition trusted_news :: "string list" where
  "trusted_news = [''bbc.'', ''reuters.'', ''nytimes.'', ''theguardian.'', ''apnews'']"

definition dom_score :: "string \<Rightarrow> real" where
  "dom_score d = (if \<exists>k \<in> set trusted_news. str_contains k d then 95 / 100 else 5 / 10)"

text \<open>
  \<^verbatim>\<open>length = max(1, len(text)); length_factor = min(1.0, log1p(length)/log1p(4000))\<close>
\<close>

definition length_factor :: "string \<Rightarrow> real" where
  "length_factor t = min 1 (ln (1 + real (max 1 (length t))) / ln (1 + 4000))"

definition item_relevance :: "evidence \<Rightarrow> real" where
  "item_relevance item =
     py_round3 (dom_score (domain item) * score item * (6 / 10 * length_factor (text item) + 4 / 10))"

definition score_evidence :: "evidence \<Rightarrow> evidence" where
  "score_evidence item = item\<lparr>relevance := Some (item_relevance item)\<rparr>"

text \<open>\<^verbatim>\<open>x.get("relevance", 0)\<close>\<close>

definition relevance_or_0 :: "evidence \<Rightarrow> real" where
  "relevance_or_0 x = (case relevance x of None \<Rightarrow> 0 | Some r \<Rightarrow> r)"

text \<open>
  \<^verbatim>\<open>normalized.sort(key=..., reverse=True)\<close> is a stable sort in descending order of
  the key: the stable ascending sort on the negated key.
\<close>

definition normalize_and_score_evidence ::
  "(string \<Rightarrow> string) \<Rightarrow> evidence list \<Rightarrow> evidence list" where
  "normalize_and_score_evidence hash_text evidence_list =
     sort_key (\<lambda>x. - relevance_or_0 x)
       (map score_evidence (map snd (dedup_evidence hash_text evidence_list)))"

text \<open>The length factor as the specification words it, on the length of the text.\<close>

definition spec_length_factor :: "nat \<Rightarrow> real" where
  "spec_length_factor n = min 1 (ln (1 + real n) / ln (1 + 4000))"

text \<open>
  What the deduplication loop maintains: under each key the dictionary holds one of the
  items seen with that key (up to its score), with a text no shorter than any of theirs,
  and with the largest of their scores.
\<close>

definition survivor_ok :: "(string \<Rightarrow> string) \<Rightarrow> evidence list \<Rightarrow> string \<Rightarrow> evidence \<Rightarrow> bool" where
  "survivor_ok h es k v \<longleftrightarrow>
        identity_key h v = k \<and>
        (\<exists>x \<in> set es. identity_key h x = k \<and> v = x\<lparr>score := score v\<rparr>) \<and>
        (\<forall>x \<in> set es. identity_key h x = k \<longrightarrow> length (text x) \<le> length (text v)) \<and>
        (\<exists>x \<in> set es. identity_key h x = k \<and> score v = score x) \<and>
        (\<forall>x \<in> set es. identity_key h x = k \<longrightarrow> score x \<le> score v)"

definition dedup_inv :: "(string \<Rightarrow> string) \<Rightarrow> evidence list \<Rightarrow> (string \<times> evidence) list \<Rightarrow> bool" where
  "dedup_inv h es d \<longleftrightarrow>
     distinct (map fst d) \<and>
     dom (map_of d) = identity_key h ` set es \<and>
     (\<forall>k v. map_of d k = Some v \<longrightarrow> survivor_ok h es k v)"

section \<open>Snippets and the evidence collector (agentic\_controller.py)\<close>

text \<open>
  \<^verbatim>\<open>str.isspace\<close> on a code point below 256; \<^verbatim>\<open>t.split()\<close> cuts at runs of such
  characters and drops empty pieces.
\<close>

definition is_space :: "char \<Rightarrow> bool" where
  "is_space c = (of_char c \<in> {9, 10, 11, 12, 13, 28, 29, 30, 31, 32, 133, 160 :: nat})"

fun split_ws :: "string \<Rightarrow> string \<Rightarrow> string list" where
  "split_ws cur [] = (if cur = [] then [] else [cur])"
| "split_ws cur (c # cs) =
     (if is_space c then (if cur = [] then split_ws [] cs else cur # split_ws [] cs)
      else split_ws (cur @ [c]) cs)"

definition py_split :: "string \<Rightarrow> string list" where
  "py_split t = split_ws [] t"

fun py_join :: "string \<Rightarrow> string list \<Rightarrow> string" where
  "py_join sep [] = []"
| "py_join sep [w] = w"
| "py_join sep (w # ws) = w @ sep @ py_join sep ws"

text \<open>\<^verbatim>\<open>p.rsplit(" ", 1)[0]\<close>: what stands before the last space, or all of \<open>p\<close>.\<close>

definition rsplit_space_head :: "string \<Rightarrow> string" where
  "rsplit_space_head p =
     (if CHR '' '' \<in> set p then rev (tl (dropWhile (\<lambda>c. c \<noteq> CHR '' '') (rev p))) else p)"

text \<open>
  \<^verbatim>\<open>_norm_text(t, length)\<close>:
  \<^verbatim>\<open>s = " ".join(t.split()); return s if len(s) <= length else s[:length].rsplit(" ",1)[0] + "..."\<close>
\<close>

definition norm_text :: "string \<Rightarrow> nat \<Rightarrow> string" where
  "norm_text t len =
     (if t = [] then []
      else let s = py_join '' '' (py_split t)
           in if length s \<le> len then s else rsplit_space_head (take len s) @ ''...'')"

text \<open>
  Exceptions are values: a call that may raise returns \<open>exn + 'a\<close>, and a
  \<^verbatim>\<open>try ... except Exception\<close> is a case distinction on \<open>Inl\<close>.
\<close>

datatype exn =
  IndexError | AttributeError | TypeError | ValueError | JSONDecodeError
| RuntimeError string | HTTPException nat string

text \<open>
  A hit of the search tool and a scraped page. An empty string stands for a missing or
  falsy string field; a missing \<^verbatim>\<open>score\<close> is \<open>None\<close>.
\<close>

record search_hit =
  hit_id :: string
  hit_title :: string
  hit_url :: string
  hit_snippet :: string
  hit_domain :: string
  hit_score :: "real option"

record page =
  page_title :: string
  page_text :: string

text \<open>\<^verbatim>\<open>t.split(sep)\<close> for a one-character separator (empty pieces are kept).\<close>

fun split_on_acc :: "char \<Rightarrow> string \<Rightarrow> string \<Rightarrow> string list" where
  "split_on_acc sep cur [] = [cur]"
| "split_on_acc sep cur (c # cs) =
     (if c = sep then cur # split_on_acc sep [] cs else split_on_acc sep (cur @ [c]) cs)"

definition split_on :: "char \<Rightarrow> string \<Rightarrow> string list" where
  "split_on sep t = split_on_acc sep [] t"

text \<open>\<^verbatim>\<open>url.split("/")[2]\<close>, which raises \<^verbatim>\<open>IndexError\<close> on fewer than three pieces.\<close>

definition url_host :: "string \<Rightarrow> exn + string" where
  "url_host u =
     (let parts = split_on CHR ''/'' u
      in if 2 < length parts then Inr (parts ! 2) else Inl IndexError)"

text \<open>
  The dictionary that \<^verbatim>\<open>run_task_search_and_scrape\<close> appends for a hit \<open>r\<close> whose page
  \<open>pg\<close> was scraped; only the domain fallback can raise.
\<close>

definition hit_evidence ::
  "(string \<Rightarrow> string) \<Rightarrow> search_hit \<Rightarrow> page \<Rightarrow> exn + evidence" where
  "hit_evidence hash_text r pg =
     (let u = hit_url r;
          snippet_text =
            norm_text (if hit_snippet r \<noteq> [] then hit_snippet r else take 400 (page_text pg)) 400
      in case (if hit_domain r \<noteq> [] then Inr (hit_domain r) else url_host u) of
           Inl e \<Rightarrow> Inl e
         | Inr d \<Rightarrow>
             Inr \<lparr>source_id = (if hit_id r \<noteq> [] then hit_id r else hash_text u),
                  url = u,
                  title = (if hit_title r \<noteq> [] then hit_title r else page_title pg),
                  snippet = snippet_text,
                  text = page_text pg,
                  domain = d,
                  score = (case hit_score r of None \<Rightarrow> 1 | Some x \<Rightarrow> x),
                  relevance = None\<rparr>)"

text \<open>
  The loop over the hits: a hit with an empty or already seen url is skipped, a failed
  scrape is logged and skipped (the url stays in \<^verbatim>\<open>seen_urls\<close>).
\<close>

fun collect_hits ::
  "(string \<Rightarrow> string) \<Rightarrow> (string \<Rightarrow> exn + page) \<Rightarrow> search_hit list \<Rightarrow> string list \<Rightarrow>
   evidence list \<Rightarrow> exn + evidence list" where
  "collect_hits hash_text scrape [] seen_urls out = Inr out"
| "collect_hits hash_text scrape (r # rs) seen_urls out =
     (let u = hit_url r in
      if u = [] \<or> u \<in> set seen_urls then collect_hits hash_text scrape rs seen_urls out
      else
        (case scrape u of
           Inl e \<Rightarrow> collect_hits hash_text scrape rs (u # seen_urls) out
         | Inr pg \<Rightarrow>
             (case hit_evidence hash_text r pg of
                Inl e \<Rightarrow> Inl e
              | Inr item \<Rightarrow> collect_hits hash_text scrape rs (u # seen_urls) (out @ [item]))))"

definition run_task_search_and_scrape ::
  "(string \<Rightarrow> string) \<Rightarrow> ('p \<Rightarrow> nat \<Rightarrow> search_hit list) \<Rightarrow> (string \<Rightarrow> exn + page) \<Rightarrow>
   'p \<Rightarrow> nat \<Rightarrow> exn + evidence list" where
  "run_task_search_and_scrape hash_text search scrape task_prompt top_n =
     collect_hits hash_text scrape (search task_prompt top_n) [] []"

section \<open>Credibility scoring (credibility.py)\<close>

text \<open>\<^verbatim>\<open>str.lower\<close> and \<^verbatim>\<open>str.strip\<close> on code points below 256.\<close>

definition lower_char :: "char \<Rightarrow> char" where
  "lower_char c =
     (let n = (of_char c :: nat)
      in if (65 \<le> n \<and> n \<le> 90) \<or> (192 \<le> n \<and> n \<le> 222 \<and> n \<noteq> 215)
         then char_of (n + 32) else c)"

definition py_lower :: "string \<Rightarrow> string" where
  "py_lower s = map lower_char s"

definition py_strip :: "string \<Rightarrow> string" where
  "py_strip s = rev (dropWhile is_space (rev (dropWhile is_space s)))"

record article =
  art_url :: string
  art_title :: string
  art_text :: string

text \<open>
  The knowledge graph handed to \<^verbatim>\<open>_kg_centrality_score\<close>: nodes with optional
  \<^verbatim>\<open>id\<close>, \<^verbatim>\<open>label\<close> and \<^verbatim>\<open>text\<close>, links with \<^verbatim>\<open>source\<close> and \<^verbatim>\<open>target\<close>
  (empty when missing). \<^verbatim>\<open>networkx\<close> keeps one undirected edge per pair of endpoints,
  counts a self-loop twice in the degree, and refuses \<^verbatim>\<open>None\<close> as a node (the
  \<^verbatim>\<open>except\<close> branch then returns 0.5); \<^verbatim>\<open>degree_centrality\<close> divides each degree by
  the number of nodes minus one. The flag \<open>has_nx\<close> says whether \<^verbatim>\<open>networkx\<close> could be
  imported.
\<close>

record kg_node =
  node_id :: "string option"
  node_label :: "string option"
  node_text :: "string option"

record kg_link =
  link_source :: string
  link_target :: string

record kg =
  nodes :: "kg_node list"
  links :: "kg_link list"

definition truthy_str :: "string option \<Rightarrow> bool" where
  "truthy_str v = (case v of None \<Rightarrow> False | Some s \<Rightarrow> s \<noteq> [])"

definition node_key :: "kg_node \<Rightarrow> string option" where
  "node_key n =
     (if truthy_str (node_id n) then node_id n
      else if truthy_str (node_label n) then node_label n
      else node_text n)"

definition same_edge :: "string \<times> string \<Rightarrow> string \<times> string \<Rightarrow> bool" where
  "same_edge e f = (e = f \<or> e = (snd f, fst f))"

fun add_edge :: "string \<times> string \<Rightarrow> (string \<times> string) list \<Rightarrow> (string \<times> string) list" where
  "add_edge e es = (if \<exists>f \<in> set es. same_edge e f then es else es @ [e])"

definition graph_edges :: "kg \<Rightarrow> (string \<times> string) list" where
  "graph_edges g =
     foldl (\<lambda>es l. if link_source l \<noteq> [] \<and> link_target l \<noteq> []
                     then add_edge (link_source l, link_target l) es else es)
       [] (links g)"

definition graph_nodes :: "kg \<Rightarrow> string list" where
  "graph_nodes g =
     remdups (List.map_filter node_key (nodes g) @
              concat (map (\<lambda>l. if link_source l \<noteq> [] \<and> link_target l \<noteq> []
                                then [link_source l, link_target l] else []) (links g)))"

definition degree :: "(string \<times> string) list \<Rightarrow> string \<Rightarrow> nat" where
  "degree es n = (\<Sum>e \<leftarrow> es. (if fst e = n then 1 else 0) + (if snd e = n then 1 else 0))"

definition degree_centrality_avg :: "kg \<Rightarrow> real" where
  "degree_centrality_avg g =
     (let ns = graph_nodes g; es = graph_edges g
      in (\<Sum>n \<leftarrow> ns. real (degree es n) / (real (length ns) - 1)) / real (length ns))"

definition kg_centrality_score :: "bool \<Rightarrow> kg option \<Rightarrow> real" where
  "kg_centrality_score has_nx kg_data =
     (case kg_data of
        None \<Rightarrow> 5 / 10
      | Some g \<Rightarrow>
          if \<not> has_nx then 5 / 10
          else if \<exists>n \<in> set (nodes g). node_key n = None then 5 / 10
          else if length (graph_nodes g) < 2 then 45 / 100
          else py_round3 (min (95 / 100) (degree_centrality_avg g * (15 / 10))))"

definition trusted_outlets :: "string list" where
  "trusted_outlets = [''bbc.'', ''reuters.'', ''nytimes.'', ''theguardian.'',
     ''washingtonpost.'', ''cnn.'', ''aljazeera.'', ''apnews.'']"

definition academic_outlets :: "string list" where
  "academic_outlets = [''ieee.'', ''springer.'', ''nature.'', ''sciencedirect.'', ''acm.'', ''nih.gov'']"

definition local_outlets :: "string list" where
  "local_outlets = [''thehindu'', ''timesofindia'', ''indianexpress'', ''lallantop'']"

definition domain_reliability_score :: "string \<Rightarrow> real" where
  "domain_reliability_score u0 =
     (if u0 = [] then 45 / 100
      else let u = py_lower u0
           in if \<exists>t \<in> set trusted_outlets. str_contains t u then 95 / 100
              else if \<exists>a \<in> set academic_outlets. str_contains a u then 85 / 100
              else if \<exists>l \<in> set local_outlets. str_contains l u then 7 / 10
              else 5 / 10)"

definition content_score :: "string \<Rightarrow> real" where
  "content_score t =
     (if t = [] then 2 / 10
      else let ln_factor = min 1 (ln (1 + real (length t)) / ln (1 + 5000));
               sents = count_list t CHR ''.'' + count_list t CHR ''!'' + count_list t CHR ''?'';
               density = min 1 (real sents / max 1 (real (length t) / 200))
           in py_round3 (5 / 10 * ln_factor + 5 / 10 * density))"

definition bias_penalty :: "string \<Rightarrow> real" where
  "bias_penalty bias_note =
     (if bias_note = [] then 0
      else let low = py_lower bias_note
           in if str_contains ''sensational'' low \<or> str_contains ''opinionated'' low
                 \<or> str_contains ''highly biased'' low then 18 / 100
              else if str_contains ''slightly biased'' low then 6 / 100
              else 0)"

text \<open>
  \<^verbatim>\<open>CredibilityEngine.score\<close>. The argument \<open>support\<close> is the value of
  \<^verbatim>\<open>stance["support"]\<close>, or \<open>None\<close> when the key is absent or \<^verbatim>\<open>stance\<close> is not a
  dictionary (both give 0.5); \<open>kg_data\<close> is \<open>None\<close> for a missing or empty graph
  dictionary. \<open>pre_clamp\<close> is \<^verbatim>\<open>raw - bias_penalty\<close>.
\<close>

definition credibility_raw :: "bool \<Rightarrow> article \<Rightarrow> kg option \<Rightarrow> real option \<Rightarrow> real" where
  "credibility_raw has_nx art kg_data support =
     (let domain_score = domain_reliability_score (art_url art);
          content = content_score (py_strip (art_text art));
          support_score = (case support of None \<Rightarrow> 5 / 10 | Some s \<Rightarrow> s);
          centrality_score = kg_centrality_score has_nx kg_data
      in 30 / 100 * domain_score + 25 / 100 * content + 30 / 100 * support_score
           + 15 / 100 * centrality_score)"

definition pre_clamp :: "bool \<Rightarrow> article \<Rightarrow> kg option \<Rightarrow> real option \<Rightarrow> string \<Rightarrow> real" where
  "pre_clamp has_nx art kg_data support bias_note =
     credibility_raw has_nx art kg_data support - bias_penalty bias_note"

definition credibility_score :: "bool \<Rightarrow> article \<Rightarrow> kg option \<Rightarrow> real option \<Rightarrow> string \<Rightarrow> real" where
  "credibility_score has_nx art kg_data support bias_note =
     py_round3 (max 0 (min 1 (pre_clamp has_nx art kg_data support bias_note)))"

section \<open>Task planning (agentic\_controller.py)\<close>

text \<open>
  Values decoded from JSON, and dictionaries with string keys in insertion order. The
  LLM capability is a record: whether it is available, and what \<^verbatim>\<open>summarize\<close> returns
  or raises on a prompt and a token limit.
\<close>

datatype json =
  JNull | JBool bool | JNum real | JStr string | JArr "json list" | JObj "(string \<times> json) list"

type_synonym pydict = "(string \<times> json) list"

record llm =
  available :: bool
  summarize :: "string \<Rightarrow> nat \<Rightarrow> exn + string"

definition digit_char :: "nat \<Rightarrow> char" where
  "digit_char d = ''0123456789'' ! d"

fun str_nat :: "nat \<Rightarrow> string" where
  "str_nat n = (if n < 10 then [digit_char n] else str_nat (n div 10) @ [digit_char (n mod 10)])"

definition quoted :: "string \<Rightarrow> string" where
  "quoted q = [CHR 0x27] @ q @ [CHR 0x27]"

definition template_plan :: "string \<Rightarrow> string \<Rightarrow> pydict list" where
  "template_plan query implications =
     [[(''id'', JStr ''t1''), (''role'', JStr ''background''),
       (''prompt'', JStr (''Background: define and scope '' @ quoted query)),
       (''requires_search'', JBool True)],
      [(''id'', JStr ''t2''), (''role'', JStr ''evidence''),
       (''prompt'', JStr (''Evidence: find key studies or news pieces for '' @ quoted query)),
       (''requires_search'', JBool True)],
      [(''id'', JStr ''t3''), (''role'', JStr ''implications''),
       (''prompt'', JStr (implications @ quoted query)),
       (''requires_search'', JBool False)]]"

text \<open>
  \<^verbatim>\<open>re.search(r"\[.*\]", raw, flags=re.S)\<close>: from the first opening bracket to the last
  closing bracket after it.
\<close>

definition search_array :: "string \<Rightarrow> string option" where
  "search_array raw =
     (case dropWhile (\<lambda>c. c \<noteq> CHR ''['') raw of
        [] \<Rightarrow> None
      | bracket # rest \<Rightarrow>
          if CHR '']'' \<in> set rest
          then Some (bracket # rev (dropWhile (\<lambda>c. c \<noteq> CHR '']'') (rev rest)))
          else None)"

text \<open>
  The loop that fills in missing fields; an element that is not a dictionary has no
  \<^verbatim>\<open>setdefault\<close> and raises \<^verbatim>\<open>AttributeError\<close>.
\<close>

definition setdefault :: "string \<Rightarrow> json \<Rightarrow> pydict \<Rightarrow> pydict" where
  "setdefault k v d = (if k \<in> fst ` set d then d else d @ [(k, v)])"

definition backfill_task :: "string \<Rightarrow> nat \<Rightarrow> json \<Rightarrow> exn + pydict" where
  "backfill_task query i t =
     (case t of
        JObj d \<Rightarrow>
          Inr (setdefault ''requires_search'' (JBool True)
                (setdefault ''prompt'' (JStr (''Investigate: '' @ query))
                  (setdefault ''role'' (JStr ''evidence'')
                    (setdefault ''id'' (JStr (''t'' @ str_nat (i + 1))) d))))
      | _ \<Rightarrow> Inl AttributeError)"

fun backfill_plan :: "string \<Rightarrow> nat \<Rightarrow> json list \<Rightarrow> exn + pydict list" where
  "backfill_plan query i [] = Inr []"
| "backfill_plan query i (t # ts) =
     (case backfill_task query i t of
        Inl e \<Rightarrow> Inl e
      | Inr t' \<Rightarrow>
          (case backfill_plan query (Suc i) ts of
             Inl e \<Rightarrow> Inl e
           | Inr ts' \<Rightarrow> Inr (t' # ts')))"

definition planner_prompt :: "string \<Rightarrow> string" where
  "planner_prompt query =
     ''You are a research planner. Given a one-line research query, return a JSON array of 3-6 task objects with keys: id, role (background,evidence,contradiction,implications), prompt, requires_search (true/false).''
     @ [CHR 0x0A, CHR 0x0A] @ ''Query: '' @ query @ [CHR 0x0A, CHR 0x0A] @ ''Return JSON only.''"

text \<open>
  The \<^verbatim>\<open>try\<close> block of \<^verbatim>\<open>plan_tasks\<close>: \<open>Inr None\<close> when the response holds no
  bracketed array. \<^verbatim>\<open>json.loads\<close> is the parameter \<open>json_loads\<close>; the text it is given
  starts with a bracket, so what it returns is a list.
\<close>

definition plan_from_llm ::
  "llm \<Rightarrow> (string \<Rightarrow> exn + json list) \<Rightarrow> string \<Rightarrow> exn + pydict list option" where
  "plan_from_llm l json_loads query =
     (case summarize l (planner_prompt query) 300 of
        Inl e \<Rightarrow> Inl e
      | Inr raw \<Rightarrow>
          (case search_array raw of
             None \<Rightarrow> Inr None
           | Some m \<Rightarrow>
               (case json_loads m of
                  Inl e \<Rightarrow> Inl e
                | Inr plan \<Rightarrow>
                    (case backfill_plan query 0 plan of
                       Inl e \<Rightarrow> Inl e
                     | Inr plan' \<Rightarrow> Inr (Some plan')))))"

definition plan_tasks :: "llm \<Rightarrow> (string \<Rightarrow> exn + json list) \<Rightarrow> string \<Rightarrow> pydict list" where
  "plan_tasks l json_loads query =
     (if \<not> available l then template_plan query ''Implications & open questions for ''
      else case plan_from_llm l json_loads query of
             Inr (Some plan) \<Rightarrow> plan
           | _ \<Rightarrow> template_plan query ''Implications & recommendations for '')"

section \<open>The endpoint /agentic\_detect (routers/detect.py)\<close>

text \<open>
  The body of the \<^verbatim>\<open>try\<close> block and the handler around it. The two pipelines are
  parameters; \<^verbatim>\<open>HTTPException\<close> is an \<^verbatim>\<open>Exception\<close>, so the handler catches it too.
  \<open>str_exn\<close> is \<^verbatim>\<open>str(e)\<close>.
\<close>

record agentic_request =
  req_query :: "string option"
  req_url :: "string option"

definition agentic_detect_body ::
  "(string \<Rightarrow> exn + 'r) \<Rightarrow> (string \<Rightarrow> exn + 'r) \<Rightarrow> agentic_request \<Rightarrow> exn + 'r" where
  "agentic_detect_body url_article_analysis deep_research req =
     (case (if truthy_str (req_url req) then req_url req else None) of
        Some u \<Rightarrow> url_article_analysis u
      | None \<Rightarrow>
          (case (if truthy_str (req_query req) then req_query req else None) of
             Some q \<Rightarrow> deep_research q
           | None \<Rightarrow> Inl (HTTPException 400 (''Provide either '' @ quoted ''url'' @ '' or '' @ quoted ''query'' @ ''.''))))"

definition agentic_detect ::
  "(exn \<Rightarrow> string) \<Rightarrow> (string \<Rightarrow> exn + 'r) \<Rightarrow> (string \<Rightarrow> exn + 'r) \<Rightarrow> agentic_request \<Rightarrow> exn + 'r" where
  "agentic_detect str_exn url_article_analysis deep_research req =
     (case agentic_detect_body url_article_analysis deep_research req of
        Inl e \<Rightarrow> Inl (HTTPException 500 (''Agentic detect failed: '' @ str_exn e))
      | Inr result \<Rightarrow> Inr result)"

definition status_code :: "exn + 'r \<Rightarrow> nat" where
  "status_code res = (case res of Inr _ \<Rightarrow> 200 | Inl (HTTPException code _) \<Rightarrow> code | Inl _ \<Rightarrow> 500)"

section \<open>The research agent and the task loop of run\<close>

text \<open>Truth value of a decoded JSON value in a Python condition.\<close>

definition truthy :: "json \<Rightarrow> bool" where
  "truthy v =
     (case v of JNull \<Rightarrow> False | JBool b \<Rightarrow> b | JNum x \<Rightarrow> x \<noteq> 0 | JStr s \<Rightarrow> s \<noteq> []
      | JArr xs \<Rightarrow> xs \<noteq> [] | JObj d \<Rightarrow> d \<noteq> [])"

text \<open>
  \<^verbatim>\<open>re.split(r'(?<=[.!?])\s+', text)\<close>: cut at every run of whitespace that follows one
  of the three marks.
\<close>

function sent_split :: "string \<Rightarrow> string \<Rightarrow> string list" where
  "sent_split cur [] = [cur]"
| "sent_split cur (c # cs) =
     (if is_space c \<and> cur \<noteq> [] \<and> last cur \<in> {CHR ''.'', CHR ''!'', CHR ''?''}
      then cur # sent_split [] (dropWhile is_space cs)
      else sent_split (cur @ [c]) cs)"
  by pat_completeness auto
termination
  by (relation "measure (\<lambda>(cur, t). length t)")
     (auto simp: le_imp_less_Suc length_dropWhile_le)

definition make_evidence_snippets :: "string \<Rightarrow> nat \<Rightarrow> string list" where
  "make_evidence_snippets t max_snips =
     (if t = [] then []
      else let sents = sent_split [] (py_strip t);
               snips = take max_snips (filter (\<lambda>s. 30 < length (py_strip s)) sents)
           in if snips = [] then [take 300 (py_strip t)] else snips)"

text \<open>
  What \<^verbatim>\<open>ResearchAgent.analyze\<close> works with: the result of \<^verbatim>\<open>analyze_claims\<close>, the
  calls into its \<^verbatim>\<open>LLMAgent\<close> (\<open>ra_client\<close> is the tone probe when a client exists),
  and the article, whose text may be any decoded value when it comes from a task prompt.
\<close>

record stance_result =
  sr_support :: real
  sr_stance :: json
  sr_note :: string

record research_llm =
  ra_summarize :: "string \<Rightarrow> exn + string"
  ra_analyze_claims :: "string \<Rightarrow> string list \<Rightarrow> exn + stance_result"
  ra_client :: "(string \<Rightarrow> exn + string) option"

record ra_article =
  ra_title :: string
  ra_url :: string
  ra_text :: json

definition ra_domain_reliability_score :: "string \<Rightarrow> real" where
  "ra_domain_reliability_score u0 =
     (if u0 = [] then 5 / 10
      else let u = py_lower u0
           in if \<exists>t \<in> set [''bbc.'', ''reuters.'', ''nytimes.'', ''theguardian.'',
                    ''washingtonpost.'', ''cnn.'', ''aljazeera.'']. str_contains t u then 9 / 10
              else if \<exists>a \<in> set [''ieee.'', ''springer.'', ''nature.'', ''sciencedirect.'',
                    ''acm.'']. str_contains a u then 6 / 10
              else 5 / 10)"

definition stripped_text :: "json \<Rightarrow> exn + string" where
  "stripped_text v =
     (if \<not> truthy v then Inr []
      else case v of JStr s \<Rightarrow> Inr (py_strip s) | _ \<Rightarrow> Inl AttributeError)"

definition bias_note_of :: "research_llm \<Rightarrow> string \<Rightarrow> string" where
  "bias_note_of l t =
     (case ra_client l of
        Some probe \<Rightarrow>
          (case probe (take 3000 t) of
             Inl e \<Rightarrow> ''(bias detection unavailable)''
           | Inr content \<Rightarrow> py_strip content)
      | None \<Rightarrow>
          if \<exists>ex \<in> set [''shocking'', ''must read'', ''unbelievable'',
                 ''you won'' @ [CHR 0x27] @ ''t believe'']. str_contains ex (py_lower t)
          then ''sensational'' else ''neutral'')"

fun snippet_lines :: "nat \<Rightarrow> string list \<Rightarrow> string list" where
  "snippet_lines i [] = []"
| "snippet_lines i (s # ss) =
     (''Snippet '' @ str_nat (i + 1) @ '': '' @ take 240 s) # snippet_lines (Suc i) ss"

text \<open>
  \<^verbatim>\<open>ResearchAgent.analyze\<close>. The returned dictionary is built exactly as in the source,
  with the keys \<^verbatim>\<open>summary, evidence, contradictions, credibility_score, knowledge_graph,
  stance, bias_note\<close>.
\<close>

definition analyze ::
  "research_llm \<Rightarrow> (string \<Rightarrow> exn + json) \<Rightarrow> ra_article \<Rightarrow> exn + pydict" where
  "analyze l build_graph art =
     (case stripped_text (ra_text art) of
        Inl e \<Rightarrow> Inl e
      | Inr t \<Rightarrow>
     (let title = ra_title art;
          evidence_snips = make_evidence_snippets t 8
      in case (if t \<noteq> [] then ra_summarize l t else Inr ''(no text to summarize)'') of
        Inl e \<Rightarrow> Inl e
      | Inr summary \<Rightarrow>
     (let claim = (if title \<noteq> [] then title
                   else if t \<noteq> [] then hd (split_on CHR ''.'' t) else [])
      in case (if claim \<noteq> [] then ra_analyze_claims l claim evidence_snips
               else Inr \<lparr>sr_support = 5 / 10, sr_stance = JStr ''mixed'', sr_note = ''no claim''\<rparr>) of
        Inl e \<Rightarrow> Inl e
      | Inr stance \<Rightarrow>
     (let domain_score = ra_domain_reliability_score (ra_url art);
          length_score = (if t \<noteq> [] then min (95 / 100) (real (length t) / 5000 + 1 / 10)
                          else 3 / 10);
          bias_note = bias_note_of l t;
          support_score = sr_support stance;
          combined = 5 / 10 * length_score + 3 / 10 * domain_score + 2 / 10 * support_score;
          credibility = py_round3 (max 0 (min 1 combined))
      in case build_graph t of
        Inl e \<Rightarrow> Inl e
      | Inr kg_json \<Rightarrow>
     (let evidence = [''Article length: '' @ str_nat (length t), ''Title: '' @ title]
                       @ snippet_lines 0 (take 6 evidence_snips);
          contradictions =
            (if sr_stance stance = JStr ''contradicts''
             then [''LLM found evidence that contradicts the main claim.''] else [])
      in Inr [(''summary'', JStr summary),
              (''evidence'', JArr (map JStr evidence)),
              (''contradictions'', JArr (map JStr contradictions)),
              (''credibility_score'', JNum (py_round3 credibility)),
              (''knowledge_graph'', kg_json),
              (''stance'', JObj [(''support'', JNum (sr_support stance)),
                                 (''stance'', sr_stance stance),
                                 (''note'', JStr (sr_note stance))]),
              (''bias_note'', JStr bias_note)])))))"

text \<open>
  The body of the loop over the plan in \<^verbatim>\<open>run\<close>. \<open>requires_search\<close> is
  \<^verbatim>\<open>task.get("requires_search", True)\<close> as a condition; \<open>slice_upto v n\<close> is
  \<^verbatim>\<open>v[:n]\<close> followed by iteration; \<open>py_str\<close> renders a value inside an f-string. A
  snippet that is not a string has no counterpart in the evidence record and is
  modelled as an \<^verbatim>\<open>AttributeError\<close>.
\<close>

definition requires_search :: "pydict \<Rightarrow> bool" where
  "requires_search task = (case map_of task ''requires_search'' of None \<Rightarrow> True | Some v \<Rightarrow> truthy v)"

definition slice_upto :: "json \<Rightarrow> nat \<Rightarrow> exn + json list" where
  "slice_upto v n =
     (case v of
        JArr xs \<Rightarrow> Inr (take n xs)
      | JStr s \<Rightarrow> Inr (map (\<lambda>c. JStr [c]) (take n s))
      | _ \<Rightarrow> Inl TypeError)"

fun internal_evidence ::
  "(json option \<Rightarrow> string) \<Rightarrow> pydict \<Rightarrow> nat \<Rightarrow> json list \<Rightarrow> exn + evidence list" where
  "internal_evidence py_str task i [] = Inr []"
| "internal_evidence py_str task i (sn # sns) =
     (case sn of
        JStr s \<Rightarrow>
          (case internal_evidence py_str task (Suc i) sns of
             Inl e \<Rightarrow> Inl e
           | Inr items \<Rightarrow>
               Inr (\<lparr>source_id = ''internal-'' @ py_str (map_of task ''id'') @ ''-'' @ str_nat i,
                     url = [],
                     title = py_str (map_of task ''prompt''),
                     snippet = norm_text s 400,
                     text = s,
                     domain = ''internal'',
                     score = 8 / 10,
                     relevance = None\<rparr> # items))
      | _ \<Rightarrow> Inl AttributeError)"

record 'p collaborators =
  hash_text :: "string \<Rightarrow> string"
  py_str :: "json option \<Rightarrow> string"
  search_tool :: "'p \<Rightarrow> nat \<Rightarrow> search_hit list"
  scraper :: "string \<Rightarrow> exn + page"
  research_llm :: research_llm
  build_graph :: "string \<Rightarrow> exn + json"

definition task_evidence ::
  "(json option) collaborators \<Rightarrow> string \<Rightarrow> nat \<Rightarrow> nat \<Rightarrow> pydict \<Rightarrow> exn + evidence list" where
  "task_evidence c query max_task_results search_per_task task =
     (if requires_search task then
        (case run_task_search_and_scrape (hash_text c) (search_tool c) (scraper c)
                (map_of task ''prompt'') search_per_task of
           Inl e \<Rightarrow> Inl e
         | Inr raw_hits \<Rightarrow> Inr (normalize_and_score_evidence (hash_text c) raw_hits))
      else
        (case analyze (research_llm c) (build_graph c)
                \<lparr>ra_title = query, ra_url = [],
                  ra_text = (case map_of task ''prompt'' of None \<Rightarrow> JStr [] | Some v \<Rightarrow> v)\<rparr> of
           Inl e \<Rightarrow> Inl e
         | Inr short \<Rightarrow>
             (case slice_upto (case map_of short ''snippets'' of None \<Rightarrow> JArr [] | Some v \<Rightarrow> v)
                     max_task_results of
                Inl e \<Rightarrow> Inl e
              | Inr sns \<Rightarrow> internal_evidence (py_str c) task 0 sns)))"

fun run_tasks ::
  "(json option) collaborators \<Rightarrow> string \<Rightarrow> nat \<Rightarrow> nat \<Rightarrow> pydict list \<Rightarrow>
   exn + (pydict \<times> evidence list) list" where
  "run_tasks c query max_task_results search_per_task [] = Inr []"
| "run_tasks c query max_task_results search_per_task (task # plan) =
     (case task_evidence c query max_task_results search_per_task task of
        Inl e \<Rightarrow> Inl e
      | Inr evidence_objs \<Rightarrow>
          (case run_tasks c query max_task_results search_per_task plan of
             Inl e \<Rightarrow> Inl e
           | Inr task_results \<Rightarrow> Inr ((task, evidence_objs) # task_results)))"

section \<open>Rounding\<close>

lemma round_half_even_of_int: "round_half_even (of_int n) = n"
  by (simp add: round_half_even_def)

lemma round_half_even_bounds:
  "y - 1 / 2 \<le> of_int (round_half_even y)" "of_int (round_half_even y) \<le> y + 1 / 2"
  unfolding round_half_even_def Let_def by (auto; linarith)+

lemma round_half_even_mono:
  assumes "x \<le> y"
  shows "round_half_even x \<le> round_half_even y"
proof (cases "\<lfloor>x\<rfloor> = \<lfloor>y\<rfloor>")
  case True
  with assms show ?thesis
    unfolding round_half_even_def Let_def by auto
next
  case False
  with assms have lt: "\<lfloor>x\<rfloor> < \<lfloor>y\<rfloor>"
    by (simp add: floor_mono order.not_eq_order_implies_strict)
  have "round_half_even x \<le> \<lfloor>x\<rfloor> + 1"
    unfolding round_half_even_def Let_def by auto
  moreover have "\<lfloor>y\<rfloor> \<le> round_half_even y"
    unfolding round_half_even_def Let_def by auto
  ultimately show ?thesis using lt by linarith
qed

lemma round_half_even_shift_even:
  assumes "even k"
  shows "round_half_even (y + of_int k) = round_half_even y + k"
proof -
  have f: "\<lfloor>y + of_int k\<rfloor> = \<lfloor>y\<rfloor> + k" by simp
  show ?thesis
    unfolding round_half_even_def Let_def f using assms by auto
qed

lemma py_round3_mono: "x \<le> y \<Longrightarrow> py_round3 x \<le> py_round3 y"
  unfolding py_round3_def
  by (simp add: divide_right_mono round_half_even_mono)

lemma py_round3_nonneg: "0 \<le> x \<Longrightarrow> 0 \<le> py_round3 x"
  using py_round3_mono [of 0 x] round_half_even_of_int [of 0]
  by (simp add: py_round3_def)

lemma py_round3_le_1: "x \<le> 1 \<Longrightarrow> py_round3 x \<le> 1"
  using py_round3_mono [of x 1] round_half_even_of_int [of 1000]
  by (simp add: py_round3_def)

section \<open>Deduplication and merging\<close>

lemma identity_key_score [simp]: "identity_key h (e\<lparr>score := s\<rparr>) = identity_key h e"
  by (simp add: identity_key_def)

lemma survivor_ok_other:
  "survivor_ok h es k v \<Longrightarrow> identity_key h e \<noteq> k \<Longrightarrow> survivor_ok h (es @ [e]) k v"
  unfolding survivor_ok_def by auto

lemma survivor_ok_new:
  "identity_key h e \<notin> identity_key h ` set es \<Longrightarrow> survivor_ok h (es @ [e]) (identity_key h e) e"
  unfolding survivor_ok_def by (auto simp: image_iff)

lemma survivor_ok_merge:
  assumes "survivor_ok h es k existing" "identity_key h e = k"
  shows "survivor_ok h (es @ [e]) k
     ((if length (text existing) < length (text e) then e else existing)
        \<lparr>score := max (score existing) (score e)\<rparr>)"
proof (cases "length (text existing) < length (text e)")
  case True
  with assms show ?thesis
    unfolding survivor_ok_def
    by (auto simp: max_def; fastforce)
next
  case False
  with assms show ?thesis
    unfolding survivor_ok_def
    by (auto simp: max_def; fastforce)
qed

lemma dedup_inv_step:
  assumes "dedup_inv h es d"
  shows "dedup_inv h (es @ [e]) (merge_evidence h d e)"
proof (cases "map_of d (identity_key h e)")
  case None
  then have m: "merge_evidence h d e = AList.update (identity_key h e) e d"
    by (simp add: merge_evidence_def)
  from None assms have notin: "identity_key h e \<notin> identity_key h ` set es"
    by (auto simp: dedup_inv_def domIff)
  show ?thesis
    unfolding m dedup_inv_def
    using assms notin
    by (auto simp: distinct_update update_conv' dedup_inv_def dom_update
          intro: survivor_ok_other survivor_ok_new)
next
  case (Some existing)
  then have m: "merge_evidence h d e = AList.update (identity_key h e)
      ((if length (text existing) < length (text e) then e else existing)
        \<lparr>score := max (score existing) (score e)\<rparr>) d"
    by (simp add: merge_evidence_def Let_def)
  from Some assms have ok: "survivor_ok h es (identity_key h e) existing"
    by (simp add: dedup_inv_def)
  from Some have indom: "identity_key h e \<in> dom (map_of d)" by auto
  show ?thesis
    unfolding m dedup_inv_def
    using assms indom survivor_ok_merge [OF ok refl]
    by (auto simp: distinct_update update_conv' dedup_inv_def dom_update
          intro: survivor_ok_other)
qed

lemma dedup_inv_foldl:
  "dedup_inv h es d \<Longrightarrow> dedup_inv h (es @ xs) (foldl (merge_evidence h) d xs)"
proof (induction xs arbitrary: es d)
  case Nil
  then show ?case by simp
next
  case (Cons x xs)
  from Cons.IH [OF dedup_inv_step [OF Cons.prems, of x]] show ?case by simp
qed

lemma dedup_inv_dedup: "dedup_inv h es (dedup_evidence h es)"
  using dedup_inv_foldl [of h "[]" "[]" es]
  by (simp add: dedup_evidence_def dedup_inv_def)

lemma score_evidence_fields [simp]:
  "identity_key h (score_evidence x) = identity_key h x"
  "text (score_evidence x) = text x"
  "score (score_evidence x) = score x"
  "domain (score_evidence x) = domain x"
  "relevance (score_evidence x) = Some (item_relevance x)"
  by (simp_all add: score_evidence_def identity_key_def)

lemma item_relevance_score_evidence [simp]:
  "item_relevance (score_evidence x) = item_relevance x"
  by (simp add: item_relevance_def)

lemma score_evidence_idem [simp]: "score_evidence (score_evidence x) = score_evidence x"
  by (simp add: score_evidence_def item_relevance_def)

lemma set_normalize:
  "set (normalize_and_score_evidence h es) = score_evidence ` snd ` set (dedup_evidence h es)"
  by (simp add: normalize_and_score_evidence_def image_image)

lemma normalize_member:
  assumes "y \<in> set (normalize_and_score_evidence h es)"
  obtains v where "survivor_ok h es (identity_key h y) v" "y = score_evidence v"
proof -
  from assms obtain k v where kv: "(k, v) \<in> set (dedup_evidence h es)" and y: "y = score_evidence v"
    by (auto simp: set_normalize)
  have inv: "dedup_inv h es (dedup_evidence h es)" by (rule dedup_inv_dedup)
  then have "map_of (dedup_evidence h es) k = Some v"
    using kv by (simp add: dedup_inv_def)
  with inv have ok: "survivor_ok h es k v" by (simp add: dedup_inv_def)
  then have "identity_key h v = k" by (simp add: survivor_ok_def)
  with ok y that show thesis by simp
qed

lemma dedup_keys: "map (identity_key h) (map snd (dedup_evidence h es)) = map fst (dedup_evidence h es)"
proof -
  have inv: "dedup_inv h es (dedup_evidence h es)" by (rule dedup_inv_dedup)
  have "\<forall>p \<in> set (dedup_evidence h es). identity_key h (snd p) = fst p"
  proof
    fix p assume "p \<in> set (dedup_evidence h es)"
    then have "map_of (dedup_evidence h es) (fst p) = Some (snd p)"
      using inv by (simp add: dedup_inv_def)
    with inv show "identity_key h (snd p) = fst p"
      by (simp add: dedup_inv_def survivor_ok_def)
  qed
  then show ?thesis by simp
qed

lemma distinct_map_sort_key:
  "distinct (map g (sort_key f xs)) = distinct (map g xs)"
  by (simp add: distinct_map)

lemma normalize_distinct_keys:
  "distinct (map (identity_key h) (normalize_and_score_evidence h es))"
proof -
  have inv: "dedup_inv h es (dedup_evidence h es)" by (rule dedup_inv_dedup)
  have "map (identity_key h) (map score_evidence (map snd (dedup_evidence h es)))
      = map fst (dedup_evidence h es)"
    using dedup_keys [of h es] by (simp add: comp_def)
  with inv show ?thesis
    by (simp add: normalize_and_score_evidence_def distinct_map_sort_key dedup_inv_def del: map_map)
qed

lemma normalize_key_set:
  "identity_key h ` set (normalize_and_score_evidence h es) = identity_key h ` set es"
proof -
  have inv: "dedup_inv h es (dedup_evidence h es)" by (rule dedup_inv_dedup)
  have "identity_key h ` set (normalize_and_score_evidence h es)
      = set (map (identity_key h) (map score_evidence (map snd (dedup_evidence h es))))"
    by (simp add: normalize_and_score_evidence_def image_image)
  also have "\<dots> = set (map fst (dedup_evidence h es))"
    using dedup_keys [of h es] by (simp add: comp_def)
  also have "\<dots> = identity_key h ` set es"
    using inv by (simp add: dedup_inv_def dom_map_of_conv_image_fst)
  finally show ?thesis .
qed

lemma normalize_pair:
  assumes "url a = url b" "url a \<noteq> []"
  shows "normalize_and_score_evidence h [a, b] =
     [score_evidence ((if length (text a) < length (text b) then b else a)
        \<lparr>score := max (score a) (score b)\<rparr>)]"
  using assms
  by (simp add: normalize_and_score_evidence_def dedup_evidence_def merge_evidence_def
      identity_key_def Let_def)

text \<open>
  Claim C1. After \<^verbatim>\<open>normalize_and_score_evidence\<close> the identity keys of the items are
  pairwise distinct and are exactly the keys of the input; every surviving item carries
  the text of one of the input items with its key, no input item with that key has a
  longer text, and its score is the largest score among the input items with that key.
  Two items that share a non-empty url merge into one item with the longer text and the
  larger score.
\<close>

theorem normalize_one_survivor_per_key:
  "distinct (map (identity_key h) (normalize_and_score_evidence h es)) \<and>
   identity_key h ` set (normalize_and_score_evidence h es) = identity_key h ` set es \<and>
   (\<forall>y \<in> set (normalize_and_score_evidence h es).
      (\<exists>x \<in> set es. identity_key h x = identity_key h y \<and> text y = text x) \<and>
      (\<exists>x \<in> set es. identity_key h x = identity_key h y \<and> score y = score x) \<and>
      (\<forall>x \<in> set es. identity_key h x = identity_key h y \<longrightarrow>
          length (text x) \<le> length (text y) \<and> score x \<le> score y)) \<and>
   (url a = url b \<and> url a \<noteq> [] \<longrightarrow>
      (\<exists>y. normalize_and_score_evidence h [a, b] = [y] \<and>
           text y = (if length (text a) < length (text b) then text b else text a) \<and>
           score y = max (score a) (score b)))"
proof -
  have d: "distinct (map (identity_key h) (normalize_and_score_evidence h es))"
    by (rule normalize_distinct_keys)
  have k: "identity_key h ` set (normalize_and_score_evidence h es) = identity_key h ` set es"
    by (rule normalize_key_set)
  have s: "(\<exists>x \<in> set es. identity_key h x = identity_key h y \<and> text y = text x) \<and>
      (\<exists>x \<in> set es. identity_key h x = identity_key h y \<and> score y = score x) \<and>
      (\<forall>x \<in> set es. identity_key h x = identity_key h y \<longrightarrow>
          length (text x) \<le> length (text y) \<and> score x \<le> score y)"
    if y: "y \<in> set (normalize_and_score_evidence h es)" for y
  proof -
    from y obtain v where ok: "survivor_ok h es (identity_key h y) v" and yv: "y = score_evidence v"
      by (rule normalize_member)
    from ok obtain x where x: "x \<in> set es" "identity_key h x = identity_key h y"
      and vx: "v = x\<lparr>score := score v\<rparr>"
      unfolding survivor_ok_def by blast
    from arg_cong [OF vx, of "text"] have "text v = text x" by simp
    with x yv have 1: "\<exists>x \<in> set es. identity_key h x = identity_key h y \<and> text y = text x"
      by auto
    have 2: "\<exists>x \<in> set es. identity_key h x = identity_key h y \<and> score y = score x"
      using ok yv unfolding survivor_ok_def by auto
    have 3: "\<forall>x \<in> set es. identity_key h x = identity_key h y \<longrightarrow>
          length (text x) \<le> length (text y) \<and> score x \<le> score y"
      using ok yv unfolding survivor_ok_def by auto
    from 1 2 3 show ?thesis by blast
  qed
  have p: "url a = url b \<and> url a \<noteq> [] \<longrightarrow>
      (\<exists>y. normalize_and_score_evidence h [a, b] = [y] \<and>
           text y = (if length (text a) < length (text b) then text b else text a) \<and>
           score y = max (score a) (score b))"
  proof
    assume "url a = url b \<and> url a \<noteq> []"
    then have "url a = url b" "url a \<noteq> []" by blast+
    from normalize_pair [OF this, of h]
    show "\<exists>y. normalize_and_score_evidence h [a, b] = [y] \<and>
           text y = (if length (text a) < length (text b) then text b else text a) \<and>
           score y = max (score a) (score b)"
      by simp
  qed
  from d k s p show ?thesis by blast
qed

text \<open>
  The example of the claim: the same url, texts of 50 and 500 characters, scores 0.4 and
  0.9. Both items carry a url, so the digest of the snippet is never taken; the identity
  function stands for it.
\<close>

theorem normalize_one_survivor_per_key_witness:
  "(\<exists>y. normalize_and_score_evidence (\<lambda>t. t)
      [\<lparr>source_id = ''r1'', url = ''https://www.bbc.com/news/x'', title = ''A'',
        snippet = ''first'', text = replicate 50 CHR ''a'', domain = ''www.bbc.com'',
        score = 4 / 10, relevance = None\<rparr>,
       \<lparr>source_id = ''r2'', url = ''https://www.bbc.com/news/x'', title = ''B'',
        snippet = ''second'', text = replicate 500 CHR ''b'', domain = ''www.bbc.com'',
        score = 9 / 10, relevance = None\<rparr>] = [y] \<and>
      length (text y) = 500 \<and> score y = 9 / 10)"
  using normalize_one_survivor_per_key [of "\<lambda>t. t"
      "[\<lparr>source_id = ''r1'', url = ''https://www.bbc.com/news/x'', title = ''A'',
        snippet = ''first'', text = replicate 50 CHR ''a'', domain = ''www.bbc.com'',
        score = 4 / 10, relevance = None\<rparr>,
       \<lparr>source_id = ''r2'', url = ''https://www.bbc.com/news/x'', title = ''B'',
        snippet = ''second'', text = replicate 500 CHR ''b'', domain = ''www.bbc.com'',
        score = 9 / 10, relevance = None\<rparr>]"
      "\<lparr>source_id = ''r1'', url = ''https://www.bbc.com/news/x'', title = ''A'',
        snippet = ''first'', text = replicate 50 CHR ''a'', domain = ''www.bbc.com'',
        score = 4 / 10, relevance = None\<rparr>"
      "\<lparr>source_id = ''r2'', url = ''https://www.bbc.com/news/x'', title = ''B'',
        snippet = ''second'', text = replicate 500 CHR ''b'', domain = ''www.bbc.com'',
        score = 9 / 10, relevance = None\<rparr>"]
  by auto

lemma update_fresh: "k \<notin> fst ` set d \<Longrightarrow> AList.update k v d = d @ [(k, v)]"
  by (induction d) auto

lemma dedup_foldl_distinct:
  assumes "distinct (map (identity_key h) xs)"
    and "identity_key h ` set xs \<inter> fst ` set d = {}"
  shows "foldl (merge_evidence h) d xs = d @ map (\<lambda>x. (identity_key h x, x)) xs"
  using assms
proof (induction xs arbitrary: d)
  case Nil
  then show ?case by simp
next
  case (Cons x xs)
  from Cons.prems have fresh: "identity_key h x \<notin> fst ` set d" by auto
  then have "map_of d (identity_key h x) = None"
    by (simp add: map_of_eq_None_iff)
  then have m: "merge_evidence h d x = d @ [(identity_key h x, x)]"
    using fresh by (simp add: merge_evidence_def update_fresh)
  have "foldl (merge_evidence h) (d @ [(identity_key h x, x)]) xs
      = (d @ [(identity_key h x, x)]) @ map (\<lambda>x. (identity_key h x, x)) xs"
    using Cons.prems by (intro Cons.IH) auto
  with m show ?case by simp
qed

text \<open>
  Claim C2. Normalising the output of \<^verbatim>\<open>normalize_and_score_evidence\<close> again gives
  the same list: the same items with the same relevance values in the same order.
\<close>

theorem normalize_idempotent:
  "normalize_and_score_evidence h (normalize_and_score_evidence h es) =
   normalize_and_score_evidence h es"
proof -
  let ?n = "normalize_and_score_evidence h es"
  let ?f = "\<lambda>x. - relevance_or_0 x"
  have "dedup_evidence h ?n = map (\<lambda>x. (identity_key h x, x)) ?n"
    unfolding dedup_evidence_def
    using dedup_foldl_distinct [of h ?n "[]"] normalize_distinct_keys [of h es] by simp
  then have 1: "map snd (dedup_evidence h ?n) = ?n"
    by (simp add: comp_def)
  have "\<forall>y \<in> set ?n. score_evidence y = y"
    by (auto simp: set_normalize)
  then have 2: "map score_evidence ?n = ?n"
    by (simp add: map_idI)
  have "sorted (map ?f ?n)"
    unfolding normalize_and_score_evidence_def by (rule sorted_sort_key)
  then have 3: "sort_key ?f ?n = ?n"
    by (rule sort_key_id_if_sorted)
  show ?thesis
    unfolding normalize_and_score_evidence_def [of h ?n] 1 2 3 ..
qed

lemma ln_4001_pos: "0 < ln (1 + 4000 :: real)"
  by simp

lemma length_factor_pos: "0 < length_factor t"
proof -
  have "1 < 1 + real (max 1 (length t))" by simp
  then have "0 < ln (1 + real (max 1 (length t)))" by (rule ln_gt_zero)
  then have "0 < ln (1 + real (max 1 (length t))) / ln (1 + 4000)"
    using ln_4001_pos by (rule divide_pos_pos)
  then show ?thesis by (simp add: length_factor_def)
qed

lemma length_factor_le_1: "length_factor t \<le> 1"
  by (simp add: length_factor_def)

lemma length_factor_long: "4000 \<le> length t \<Longrightarrow> length_factor t = 1"
proof -
  assume a: "4000 \<le> length t"
  then have "max 1 (length t) = length t" by simp
  moreover have "ln (1 + 4000 :: real) \<le> ln (1 + real (length t))"
    using a by simp
  then have "1 \<le> ln (1 + real (length t)) / ln (1 + 4000)"
    using ln_4001_pos by (simp add: le_divide_eq)
  ultimately show ?thesis by (simp add: length_factor_def)
qed

lemma dom_score_range: "dom_score d = 95 / 100 \<or> dom_score d = 5 / 10"
  by (simp add: dom_score_def)

lemma item_relevance_unit:
  assumes "0 \<le> score x" "score x \<le> 1"
  shows "0 \<le> item_relevance x \<and> item_relevance x \<le> 1"
proof -
  let ?w = "6 / 10 * length_factor (text x) + 4 / 10"
  have w: "0 \<le> ?w" "?w \<le> 1"
    using length_factor_pos [of "text x"] length_factor_le_1 [of "text x"] by simp_all
  have d: "0 \<le> dom_score (domain x)" "dom_score (domain x) \<le> 1"
    using dom_score_range [of "domain x"] by auto
  have ds: "0 \<le> dom_score (domain x) * score x" "dom_score (domain x) * score x \<le> 1"
    using d assms by (simp_all add: mult_le_one)
  have "0 \<le> dom_score (domain x) * score x * ?w"
    using ds w by simp
  moreover have "dom_score (domain x) * score x * ?w \<le> 1"
    using mult_le_one [OF ds(2) w(1) w(2)] .
  ultimately show ?thesis
    unfolding item_relevance_def by (simp add: py_round3_nonneg py_round3_le_1)
qed

text \<open>
  Claim C3, as amended. When every input score lies in \<open>[0, 1]\<close>, every relevance that
  \<^verbatim>\<open>normalize_and_score_evidence\<close> computes lies in \<open>[0, 1]\<close>. The code never clamps
  the product, so the bound rests on the scores.
\<close>

theorem relevance_unit_interval_for_unit_scores:
  assumes "\<forall>x \<in> set es. 0 \<le> score x \<and> score x \<le> 1"
  shows "\<forall>y \<in> set (normalize_and_score_evidence h es).
           \<exists>r. relevance y = Some r \<and> 0 \<le> r \<and> r \<le> 1"
proof
  fix y assume "y \<in> set (normalize_and_score_evidence h es)"
  then obtain v where ok: "survivor_ok h es (identity_key h y) v" and yv: "y = score_evidence v"
    by (rule normalize_member)
  from ok obtain x where "x \<in> set es" "score v = score x"
    unfolding survivor_ok_def by blast
  with assms have "0 \<le> score v" "score v \<le> 1" by auto
  then have "0 \<le> item_relevance v \<and> item_relevance v \<le> 1" by (rule item_relevance_unit)
  with yv show "\<exists>r. relevance y = Some r \<and> 0 \<le> r \<and> r \<le> 1" by simp
qed

theorem relevance_unit_interval_for_unit_scores_witness:
  "list_all (\<lambda>y. \<exists>r. relevance y = Some r \<and> 0 \<le> r \<and> r \<le> 1)
     (normalize_and_score_evidence (\<lambda>t. t)
       [\<lparr>source_id = ''r1'', url = ''https://www.bbc.com/news/x'', title = ''A'',
         snippet = ''first'', text = ''Body of the first page.'', domain = ''www.bbc.com'',
         score = 9 / 10, relevance = None\<rparr>,
        \<lparr>source_id = ''r2'', url = ''https://blog.example/y'', title = ''B'',
         snippet = ''second'', text = '''', domain = ''blog.example'',
         score = 1, relevance = None\<rparr>])"
  unfolding list_all_iff
  by (rule relevance_unit_interval_for_unit_scores) simp

text \<open>
  Claim C3 as stated fails: a hit of a trusted domain with score 2 and a text of 4000
  characters gets relevance \<open>0.95 * 2 * (0.6 * 1 + 0.4) = 1.9\<close>.
\<close>

theorem relevance_above_one_counterexample:
  "map relevance (normalize_and_score_evidence (\<lambda>t. t)
     [\<lparr>source_id = ''r1'', url = ''https://www.bbc.com/news/x'', title = ''Headline'',
       snippet = ''short'', text = replicate 4000 CHR ''a'', domain = ''www.bbc.com'',
       score = 2, relevance = None\<rparr>]) = [Some (19 / 10)] \<and> \<not> (19 / 10 \<le> (1::real))"
  by (simp add: normalize_and_score_evidence_def dedup_evidence_def merge_evidence_def
      identity_key_def score_evidence_def item_relevance_def dom_score_def trusted_news_def
      length_factor_long py_round3_def round_half_even_def)

text \<open>
  Claim C4, as amended. The length factor of the relevance formula is the saturating
  function of the specification applied to \<open>max 1 (len text)\<close>: it agrees with the
  specification on every non-empty text, and on the empty text it is \<open>ln 2 / ln 4001\<close>.
\<close>

theorem length_factor_guarded:
  "length_factor t = spec_length_factor (max 1 (length t)) \<and>
   (t \<noteq> [] \<longrightarrow> length_factor t = spec_length_factor (length t)) \<and>
   length_factor [] = ln 2 / ln 4001 \<and>
   relevance (score_evidence item) =
     Some (py_round3 (dom_score (domain item) * score item *
        (6 / 10 * spec_length_factor (max 1 (length (text item))) + 4 / 10)))"
proof -
  have 1: "length_factor t = spec_length_factor (max 1 (length t))" for t
    by (simp add: length_factor_def spec_length_factor_def)
  have 2: "t \<noteq> [] \<longrightarrow> length_factor t = spec_length_factor (length t)"
  proof
    assume "t \<noteq> []"
    then have "max 1 (length t) = length t" by (cases t) simp_all
    with 1 [of t] show "length_factor t = spec_length_factor (length t)" by simp
  qed
  have "ln (2::real) \<le> ln 4001" by simp
  then have 3: "length_factor [] = ln 2 / ln 4001"
    by (simp add: length_factor_def min_def)
  from 1 2 3 show ?thesis
    by (simp add: item_relevance_def)
qed

theorem length_factor_guarded_witness:
  "length_factor ''claim text'' = spec_length_factor 10"
proof -
  have ne: "''claim text'' \<noteq> []" by simp
  have len: "length ''claim text'' = 10" by simp
  from length_factor_guarded [of "''claim text''"] ne
  have "length_factor ''claim text'' = spec_length_factor (length ''claim text'')" by blast
  then show ?thesis unfolding len .
qed

text \<open>
  Claim C4 as stated fails on the empty text: the specification's formula gives 0 there,
  the code's length factor is positive.
\<close>

theorem length_factor_empty_counterexample:
  "spec_length_factor 0 = 0 \<and> length_factor (text \<lparr>source_id = ''r1'', url = ''https://example.org/a'',
      title = '''', snippet = '''', text = '''', domain = ''example.org'', score = 1,
      relevance = None\<rparr>) \<noteq> 0"
  using length_factor_pos [of "''''"] by (simp add: spec_length_factor_def)

section \<open>Snippet normalisation\<close>

lemma split_ws_no_space:
  "\<forall>c \<in> set w. \<not> is_space c \<Longrightarrow> split_ws cur w = (if cur @ w = [] then [] else [cur @ w])"
  by (induction w arbitrary: cur) auto

lemma py_split_no_space: "\<forall>c \<in> set w. \<not> is_space c \<Longrightarrow> w \<noteq> [] \<Longrightarrow> py_split w = [w]"
  by (simp add: py_split_def split_ws_no_space)

lemma length_rsplit_space_head: "length (rsplit_space_head p) \<le> length p"
proof -
  have "length (tl (dropWhile (\<lambda>c. c \<noteq> CHR '' '') (rev p))) \<le> length p"
    using length_dropWhile_le [of "\<lambda>c. c \<noteq> CHR '' ''" "rev p"] by simp
  then show ?thesis by (simp add: rsplit_space_head_def)
qed

lemma rsplit_space_head_prefix: "rsplit_space_head p = take (length (rsplit_space_head p)) p"
proof (cases "CHR '' '' \<in> set p")
  case False
  then show ?thesis by (simp add: rsplit_space_head_def)
next
  case True
  let ?d = "dropWhile (\<lambda>c. c \<noteq> CHR '' '') (rev p)"
  let ?t = "takeWhile (\<lambda>c. c \<noteq> CHR '' '') (rev p)"
  from True have "?d \<noteq> []" by auto
  then obtain x xs where d: "?d = x # xs" by (cases ?d) auto
  have "rev p = ?t @ ?d" by simp
  with d have "rev p = ?t @ x # xs" by simp
  then have "p = rev xs @ (x # rev ?t)"
    by (metis rev_append rev_rev_ident rev.simps(2) append_Cons append_Nil append_assoc)
  moreover have "rsplit_space_head p = rev xs"
    using True d by (simp add: rsplit_space_head_def)
  ultimately show ?thesis by (metis append_eq_conv_conj)
qed

lemma norm_text_cases:
  "norm_text t n =
     (let s = py_join '' '' (py_split t)
      in if length s \<le> n then s else rsplit_space_head (take n s) @ ''...'')"
  by (simp add: norm_text_def py_split_def)

lemma norm_text_length: "length (norm_text t n) \<le> n + 3"
proof -
  let ?s = "py_join '' '' (py_split t)"
  show ?thesis
  proof (cases "length ?s \<le> n")
    case True
    then show ?thesis by (simp add: norm_text_cases)
  next
    case False
    have "length (rsplit_space_head (take n ?s)) \<le> length (take n ?s)"
      by (rule length_rsplit_space_head)
    with False show ?thesis by (simp add: norm_text_cases)
  qed
qed

lemma hit_evidence_snippet:
  "hit_evidence h r pg = Inr item \<Longrightarrow> \<exists>t. snippet item = norm_text t 400"
  by (auto simp: hit_evidence_def Let_def split: sum.splits)

lemma collect_hits_snippets:
  assumes "collect_hits h scrape rs seen out = Inr res"
    and "\<forall>e \<in> set out. \<exists>t. snippet e = norm_text t 400"
  shows "\<forall>e \<in> set res. \<exists>t. snippet e = norm_text t 400"
  using assms
proof (induction rs arbitrary: seen out)
  case Nil
  then show ?case by simp
next
  case (Cons r rs)
  show ?case
  proof (cases "hit_url r = [] \<or> hit_url r \<in> set seen")
    case True
    with Cons.prems(1) have "collect_hits h scrape rs seen out = Inr res" by auto
    from Cons.IH [OF this Cons.prems(2)] show ?thesis .
  next
    case False
    show ?thesis
    proof (cases "scrape (hit_url r)")
      case (Inl e)
      with False Cons.prems(1) have "collect_hits h scrape rs (hit_url r # seen) out = Inr res"
        by auto
      from Cons.IH [OF this Cons.prems(2)] show ?thesis .
    next
      case (Inr pg)
      show ?thesis
      proof (cases "hit_evidence h r pg")
        case (Inl e)
        with False Inr Cons.prems(1) show ?thesis by auto
      next
        case item: (Inr item)
        with False Inr Cons.prems(1)
        have c: "collect_hits h scrape rs (hit_url r # seen) (out @ [item]) = Inr res"
          by auto
        from hit_evidence_snippet [OF item] Cons.prems(2)
        have "\<forall>e \<in> set (out @ [item]). \<exists>t. snippet e = norm_text t 400" by auto
        from Cons.IH [OF c this] show ?thesis .
      qed
    qed
  qed
qed

section \<open>Credibility and the bias note\<close>

lemma str_contains_map: "str_contains p s \<Longrightarrow> str_contains (map f p) (map f s)"
proof (induction s)
  case Nil
  then show ?case by simp
next
  case (Cons c cs)
  from Cons.prems have "take (length p) (c # cs) = p \<or> str_contains p cs" by simp
  then show ?case
  proof
    assume "take (length p) (c # cs) = p"
    then have "map f (take (length p) (c # cs)) = map f p" by simp
    then have "take (length (map f p)) (map f (c # cs)) = map f p"
      by (simp only: take_map length_map)
    then show ?thesis by simp
  next
    assume "str_contains p cs"
    then have "str_contains (map f p) (map f cs)" by (rule Cons.IH)
    then show ?thesis by simp
  qed
qed

lemma str_contains_nonempty: "str_contains p s \<Longrightarrow> p \<noteq> [] \<Longrightarrow> s \<noteq> []"
  by (cases s) auto

lemma bias_penalty_highly_biased:
  assumes "str_contains ''highly biased'' bias_note"
  shows "bias_penalty bias_note = 18 / 100"
proof -
  have "py_lower ''highly biased'' = ''highly biased''"
    by (simp add: py_lower_def lower_char_def)
  with str_contains_map [OF assms, of lower_char]
  have "str_contains ''highly biased'' (py_lower bias_note)"
    by (simp add: py_lower_def)
  moreover from assms have "bias_note \<noteq> []"
    by (rule str_contains_nonempty) simp
  ultimately show ?thesis by (simp add: bias_penalty_def)
qed

lemma bias_penalty_empty: "bias_penalty [] = 0"
  by (simp add: bias_penalty_def)

lemma domain_reliability_score_range:
  "45 / 100 \<le> domain_reliability_score u \<and> domain_reliability_score u \<le> 95 / 100"
  by (simp add: domain_reliability_score_def Let_def)

lemma content_score_range: "0 \<le> content_score t \<and> content_score t \<le> 1"
proof (cases "t = []")
  case True
  then show ?thesis by (simp add: content_score_def)
next
  case False
  define lf where "lf = min 1 (ln (1 + real (length t)) / ln (1 + 5000))"
  define dn where "dn = min 1 (real (count_list t CHR ''.'' + count_list t CHR ''!''
      + count_list t CHR ''?'') / max 1 (real (length t) / 200))"
  have "0 \<le> ln (1 + real (length t))" by simp
  moreover have "0 < ln (1 + 5000 :: real)" by simp
  ultimately have "0 \<le> ln (1 + real (length t)) / ln (1 + 5000)" by simp
  then have lf: "0 \<le> lf" "lf \<le> 1" by (simp_all add: lf_def)
  have dn: "0 \<le> dn" "dn \<le> 1" by (simp_all add: dn_def)
  have "0 \<le> 5 / 10 * lf + 5 / 10 * dn" "5 / 10 * lf + 5 / 10 * dn \<le> 1"
    using lf dn by simp_all
  then have "0 \<le> py_round3 (5 / 10 * lf + 5 / 10 * dn) \<and> py_round3 (5 / 10 * lf + 5 / 10 * dn) \<le> 1"
    by (simp add: py_round3_nonneg py_round3_le_1)
  with False show ?thesis
    by (simp add: content_score_def Let_def lf_def dn_def)
qed

lemma degree_centrality_avg_nonneg:
  assumes "2 \<le> length (graph_nodes g)"
  shows "0 \<le> degree_centrality_avg g"
proof -
  from assms have "0 \<le> real (length (graph_nodes g)) - 1" by simp
  then have "\<forall>n \<in> set (graph_nodes g).
      0 \<le> real (degree (graph_edges g) n) / (real (length (graph_nodes g)) - 1)"
    by simp
  then have "0 \<le> (\<Sum>n \<leftarrow> graph_nodes g.
      real (degree (graph_edges g) n) / (real (length (graph_nodes g)) - 1))"
    by (intro sum_list_nonneg) auto
  then show ?thesis
    by (simp add: degree_centrality_avg_def Let_def)
qed

lemma kg_centrality_score_range:
  "0 \<le> kg_centrality_score has_nx kg_data \<and> kg_centrality_score has_nx kg_data \<le> 1"
proof (cases kg_data)
  case None
  then show ?thesis by (simp add: kg_centrality_score_def)
next
  case (Some g)
  show ?thesis
  proof (cases "has_nx \<and> \<not> (\<exists>n \<in> set (nodes g). node_key n = None) \<and> 2 \<le> length (graph_nodes g)")
    case False
    with Some show ?thesis by (auto simp: kg_centrality_score_def)
  next
    case True
    then have "0 \<le> degree_centrality_avg g" by (simp add: degree_centrality_avg_nonneg)
    then have "0 \<le> min (95 / 100) (degree_centrality_avg g * (15 / 10))" by simp
    moreover have "min (95 / 100) (degree_centrality_avg g * (15 / 10)) \<le> 1" by simp
    ultimately have "0 \<le> py_round3 (min (95 / 100) (degree_centrality_avg g * (15 / 10))) \<and>
        py_round3 (min (95 / 100) (degree_centrality_avg g * (15 / 10))) \<le> 1"
      by (simp add: py_round3_nonneg py_round3_le_1)
    with True Some show ?thesis by (simp add: kg_centrality_score_def)
  qed
qed

lemma credibility_raw_range:
  assumes "\<forall>s. support = Some s \<longrightarrow> 0 \<le> s \<and> s \<le> 1"
  shows "135 / 1000 \<le> credibility_raw has_nx art kg_data support \<and>
         credibility_raw has_nx art kg_data support \<le> 985 / 1000"
proof -
  define sup where "sup = (case support of None \<Rightarrow> 5 / 10 | Some s \<Rightarrow> (s::real))"
  from assms have s: "0 \<le> sup" "sup \<le> 1"
    by (auto simp: sup_def split: option.splits)
  note d = domain_reliability_score_range [of "art_url art"]
  note c = content_score_range [of "py_strip (art_text art)"]
  note z = kg_centrality_score_range [of has_nx kg_data]
  have "credibility_raw has_nx art kg_data support =
      30 / 100 * domain_reliability_score (art_url art)
      + 25 / 100 * content_score (py_strip (art_text art)) + 30 / 100 * sup
      + 15 / 100 * kg_centrality_score has_nx kg_data"
    by (simp add: credibility_raw_def Let_def sup_def)
  with d c z s show ?thesis by simp
qed

lemma py_round3_shift_18: "py_round3 (x - 18 / 100) = py_round3 x - 18 / 100"
proof -
  have "(x - 18 / 100) * 1000 = x * 1000 + of_int (- 180)" by simp
  then have "round_half_even ((x - 18 / 100) * 1000) = round_half_even (x * 1000) + (- 180)"
    using round_half_even_shift_even [of "- 180" "x * 1000"] by simp
  then show ?thesis by (simp add: py_round3_def diff_divide_distrib)
qed

text \<open>
  Claim C5. For every article, every knowledge graph and every stance whose support (when
  present) lies in \<open>[0, 1]\<close>, \<^verbatim>\<open>CredibilityEngine.score\<close> with a bias note containing
  ``highly biased'' is strictly below the score with the empty bias note, all else
  equal, and before clamping the two values differ by exactly 0.18.
\<close>

theorem highly_biased_lowers_credibility:
  assumes "\<forall>s. support = Some s \<longrightarrow> 0 \<le> s \<and> s \<le> 1"
    and "str_contains ''highly biased'' bias_note"
  shows "credibility_score has_nx art kg_data support bias_note
           < credibility_score has_nx art kg_data support [] \<and>
         pre_clamp has_nx art kg_data support []
           - pre_clamp has_nx art kg_data support bias_note = 18 / 100"
proof -
  let ?raw = "credibility_raw has_nx art kg_data support"
  from credibility_raw_range [OF assms(1), of has_nx art kg_data]
  have lo: "135 / 1000 \<le> ?raw" and hi: "?raw \<le> 985 / 1000" by simp_all
  have pb: "pre_clamp has_nx art kg_data support bias_note = ?raw - 18 / 100"
    by (simp add: pre_clamp_def bias_penalty_highly_biased [OF assms(2)])
  have pe: "pre_clamp has_nx art kg_data support [] = ?raw"
    by (simp add: pre_clamp_def bias_penalty_empty)
  have se: "credibility_score has_nx art kg_data support [] = py_round3 ?raw"
    using lo hi by (simp add: credibility_score_def pe)
  have "py_round3 (135 / 1000) = 135 / 1000"
    by (simp add: py_round3_def round_half_even_def)
  with py_round3_mono [OF lo] have pos: "135 / 1000 \<le> py_round3 ?raw" by simp
  have "credibility_score has_nx art kg_data support bias_note < py_round3 ?raw"
  proof (cases "18 / 100 \<le> ?raw")
    case True
    with hi have "credibility_score has_nx art kg_data support bias_note
        = py_round3 (?raw - 18 / 100)"
      by (simp add: credibility_score_def pb)
    then show ?thesis using py_round3_shift_18 [of ?raw] by simp
  next
    case False
    then have "max 0 (min 1 (?raw - 18 / 100)) = 0" by simp
    then have "credibility_score has_nx art kg_data support bias_note = py_round3 0"
      by (simp only: credibility_score_def pb)
    moreover have "py_round3 0 = 0" by (simp add: py_round3_def round_half_even_def)
    ultimately show ?thesis using pos by simp
  qed
  with se pb pe show ?thesis by simp
qed

text \<open>
  An article of a trusted outlet, no graph, support 0.5: the note
  ``The piece is highly biased.'' against the empty note.
\<close>

theorem highly_biased_lowers_credibility_witness:
  "credibility_score True \<lparr>art_url = ''https://www.bbc.com/news/x'', art_title = ''Headline'',
        art_text = ''Some text. More text.''\<rparr> None (Some (1 / 2)) ''The piece is highly biased.''
     < credibility_score True \<lparr>art_url = ''https://www.bbc.com/news/x'', art_title = ''Headline'',
        art_text = ''Some text. More text.''\<rparr> None (Some (1 / 2)) ''''"
  using highly_biased_lowers_credibility [of "Some (1 / 2)" "''The piece is highly biased.''" True
     "\<lparr>art_url = ''https://www.bbc.com/news/x'', art_title = ''Headline'',
        art_text = ''Some text. More text.''\<rparr>" None]
  by simp

section \<open>The planner\<close>

lemma str_contains_self_append: "str_contains q (q @ b)"
proof (cases "q @ b")
  case Nil
  then show ?thesis by simp
next
  case (Cons c cs)
  have "take (length q) (q @ b) = q" by simp
  then have "take (length q) (c # cs) = q" unfolding Cons .
  then show ?thesis unfolding Cons by simp
qed

lemma str_contains_infix: "str_contains q (a @ q @ b)"
proof (induction a)
  case Nil
  show ?case by (simp add: str_contains_self_append)
next
  case (Cons c a)
  then show ?case by simp
qed

lemma str_contains_quoted: "str_contains q (a @ quoted q)"
  using str_contains_infix [of q "a @ [CHR 0x27]" "[CHR 0x27]"] by (simp add: quoted_def)

lemma template_plan_prompts:
  "\<forall>t \<in> set (template_plan q i). \<exists>p. map_of t ''prompt'' = Some (JStr p) \<and> str_contains q p"
proof
  fix t assume "t \<in> set (template_plan q i)"
  then consider
      (background) "map_of t ''prompt'' = Some (JStr (''Background: define and scope '' @ quoted q))"
    | (evidence) "map_of t ''prompt'' =
        Some (JStr (''Evidence: find key studies or news pieces for '' @ quoted q))"
    | (implications) "map_of t ''prompt'' = Some (JStr (i @ quoted q))"
    by (auto simp: template_plan_def)
  then show "\<exists>p. map_of t ''prompt'' = Some (JStr p) \<and> str_contains q p"
  proof cases
    case background
    then show ?thesis using str_contains_quoted by blast
  next
    case evidence
    then show ?thesis using str_contains_quoted by blast
  next
    case implications
    then show ?thesis using str_contains_quoted by blast
  qed
qed

text \<open>
  Claim C6. When the LLM capability is unavailable, \<^verbatim>\<open>plan_tasks\<close> returns exactly
  three tasks: ids t1, t2, t3, roles background, evidence, implications, the first two
  with \<^verbatim>\<open>requires_search\<close> true and the third with false, each with a prompt that
  contains the query.
\<close>

theorem plan_tasks_unavailable_template:
  assumes "\<not> available l"
  shows "plan_tasks l json_loads query =
      [[(''id'', JStr ''t1''), (''role'', JStr ''background''),
        (''prompt'', JStr (''Background: define and scope '' @ quoted query)),
        (''requires_search'', JBool True)],
       [(''id'', JStr ''t2''), (''role'', JStr ''evidence''),
        (''prompt'', JStr (''Evidence: find key studies or news pieces for '' @ quoted query)),
        (''requires_search'', JBool True)],
       [(''id'', JStr ''t3''), (''role'', JStr ''implications''),
        (''prompt'', JStr (''Implications & open questions for '' @ quoted query)),
        (''requires_search'', JBool False)]] \<and>
    (\<forall>t \<in> set (plan_tasks l json_loads query).
        \<exists>p. map_of t ''prompt'' = Some (JStr p) \<and> str_contains query p)"
proof -
  from assms have "plan_tasks l json_loads query
      = template_plan query ''Implications & open questions for ''"
    by (simp add: plan_tasks_def)
  then show ?thesis
    using template_plan_prompts [of query "''Implications & open questions for ''"]
    by (simp add: template_plan_def)
qed

text \<open>The query ``climate change'' with a capability that is not available.\<close>

theorem plan_tasks_unavailable_template_witness:
  "map (\<lambda>t. (map_of t ''id'', map_of t ''role'', map_of t ''requires_search''))
     (plan_tasks \<lparr>available = False, summarize = (\<lambda>p n. Inl (RuntimeError ''LLM client not available''))\<rparr>
        (\<lambda>s. Inl JSONDecodeError) ''climate change'')
   = [(Some (JStr ''t1''), Some (JStr ''background''), Some (JBool True)),
      (Some (JStr ''t2''), Some (JStr ''evidence''), Some (JBool True)),
      (Some (JStr ''t3''), Some (JStr ''implications''), Some (JBool False))]"
  using plan_tasks_unavailable_template
    [of "\<lparr>available = False, summarize = (\<lambda>p n. Inl (RuntimeError ''LLM client not available''))\<rparr>"
        "\<lambda>s. Inl JSONDecodeError" "''climate change''"]
  by simp

lemma setdefault_keys: "fst ` set (setdefault k v d) = insert k (fst ` set d)"
  by (auto simp: setdefault_def)

lemma backfill_task_keys:
  "backfill_task q i t = Inr d \<Longrightarrow>
     {''id'', ''role'', ''prompt'', ''requires_search''} \<subseteq> fst ` set d"
  by (cases t) (auto simp: backfill_task_def setdefault_keys)

lemma backfill_plan_keys:
  "backfill_plan q i ts = Inr ds \<Longrightarrow>
     length ds = length ts \<and>
     (\<forall>d \<in> set ds. {''id'', ''role'', ''prompt'', ''requires_search''} \<subseteq> fst ` set d)"
proof (induction ts arbitrary: i ds)
  case Nil
  then show ?case by simp
next
  case (Cons t ts)
  from Cons.prems obtain d ds' where t: "backfill_task q i t = Inr d"
    and r: "backfill_plan q (Suc i) ts = Inr ds'" and ds: "ds = d # ds'"
    by (auto split: sum.splits)
  from Cons.IH [OF r] backfill_task_keys [OF t] ds show ?case by simp
qed

lemma template_plan_keys:
  "length (template_plan q i) = 3 \<and>
   (\<forall>d \<in> set (template_plan q i). {''id'', ''role'', ''prompt'', ''requires_search''} \<subseteq> fst ` set d)"
  by (simp add: template_plan_def)

lemma backfill_plan_objects:
  "\<forall>t \<in> set arr. \<exists>d. t = JObj d \<Longrightarrow> \<exists>p. backfill_plan q i arr = Inr p"
proof (induction arr arbitrary: i)
  case Nil
  then show ?case by simp
next
  case (Cons t ts)
  from Cons.prems obtain d where t: "t = JObj d" by auto
  from Cons.prems have "\<forall>t \<in> set ts. \<exists>d. t = JObj d" by simp
  from Cons.IH [OF this, of "Suc i"] obtain p where "backfill_plan q (Suc i) ts = Inr p" ..
  with t show ?case by (simp add: backfill_task_def)
qed

lemma plan_tasks_returns_array:
  assumes "available l" "summarize l (planner_prompt q) 300 = Inr raw"
    "search_array raw = Some m" "json_loads m = Inr arr" "backfill_plan q 0 arr = Inr p"
  shows "plan_tasks l json_loads q = p"
  using assms by (simp add: plan_tasks_def plan_from_llm_def)

lemma plan_tasks_falls_back:
  assumes "available l"
    and "(\<exists>e. summarize l (planner_prompt q) 300 = Inl e) \<or>
         (\<exists>raw. summarize l (planner_prompt q) 300 = Inr raw \<and>
            (search_array raw = None \<or>
             (\<exists>m. search_array raw = Some m \<and>
                ((\<exists>e. json_loads m = Inl e) \<or>
                 (\<exists>arr e. json_loads m = Inr arr \<and> backfill_plan q 0 arr = Inl e)))))"
  shows "plan_tasks l json_loads q = template_plan q ''Implications & recommendations for ''"
  using assms by (auto simp: plan_tasks_def plan_from_llm_def)

lemma backfill_plan_not_object:
  "\<exists>t \<in> set arr. \<forall>d. t \<noteq> JObj d \<Longrightarrow> \<exists>e. backfill_plan q i arr = Inl e"
proof (induction arr arbitrary: i)
  case Nil
  then show ?case by simp
next
  case (Cons t ts)
  show ?case
  proof (cases "\<exists>d. t = JObj d")
    case False
    then have "backfill_task q i t = Inl AttributeError"
      by (cases t) (simp_all add: backfill_task_def)
    then show ?thesis by simp
  next
    case True
    with Cons.prems have "\<exists>t \<in> set ts. \<forall>d. t \<noteq> JObj d" by auto
    from Cons.IH [OF this, of "Suc i"] obtain e where "backfill_plan q (Suc i) ts = Inl e" ..
    then show ?thesis by (auto split: sum.splits)
  qed
qed

lemma plan_tasks_shape:
  "(plan_tasks l json_loads q = template_plan q ''Implications & open questions for '' \<or>
    plan_tasks l json_loads q = template_plan q ''Implications & recommendations for '' \<or>
    (\<exists>raw m arr. available l \<and> summarize l (planner_prompt q) 300 = Inr raw \<and>
        search_array raw = Some m \<and> json_loads m = Inr arr \<and>
        backfill_plan q 0 arr = Inr (plan_tasks l json_loads q) \<and>
        length (plan_tasks l json_loads q) = length arr)) \<and>
   length (template_plan q i) = 3 \<and>
   (\<forall>t \<in> set (plan_tasks l json_loads q).
       {''id'', ''role'', ''prompt'', ''requires_search''} \<subseteq> fst ` set t)"
proof (cases "available l")
  case False
  then have "plan_tasks l json_loads q = template_plan q ''Implications & open questions for ''"
    by (simp add: plan_tasks_def)
  then show ?thesis using template_plan_keys by simp
next
  case True
  show ?thesis
  proof (cases "plan_from_llm l json_loads q")
    case (Inl e)
    with True have "plan_tasks l json_loads q
        = template_plan q ''Implications & recommendations for ''"
      by (simp add: plan_tasks_def)
    then show ?thesis using template_plan_keys by simp
  next
    case (Inr r)
    show ?thesis
    proof (cases r)
      case None
      with True Inr have "plan_tasks l json_loads q
          = template_plan q ''Implications & recommendations for ''"
        by (simp add: plan_tasks_def)
      then show ?thesis using template_plan_keys by simp
    next
      case (Some plan)
      with True Inr have pt: "plan_tasks l json_loads q = plan"
        by (simp add: plan_tasks_def)
      from Inr Some obtain raw m arr where
        1: "summarize l (planner_prompt q) 300 = Inr raw" and
        2: "search_array raw = Some m" and
        3: "json_loads m = Inr arr" and
        4: "backfill_plan q 0 arr = Inr plan"
        by (auto simp: plan_from_llm_def split: sum.splits option.splits)
      from backfill_plan_keys [OF 4] have 5: "length plan = length arr"
        and 6: "\<forall>d \<in> set plan. {''id'', ''role'', ''prompt'', ''requires_search''} \<subseteq> fst ` set d"
        by simp_all
      from True 1 2 3 4 5 have "\<exists>raw m arr. available l \<and>
          summarize l (planner_prompt q) 300 = Inr raw \<and>
          search_array raw = Some m \<and> json_loads m = Inr arr \<and>
          backfill_plan q 0 arr = Inr plan \<and> length plan = length arr"
        by blast
      with 6 template_plan_keys [of q i] show ?thesis unfolding pt by blast
    qed
  qed
qed

text \<open>
  Claim C7, as amended. Whatever the LLM capability does, \<^verbatim>\<open>plan_tasks\<close> returns a
  plan (every failure inside is caught). When the capability is available, its response
  holds a bracketed array, the array decodes and all its elements are dictionaries, the
  plan is that array with the four fields filled in, with as many tasks as the array has
  elements; the length of the array is not checked. When the capability is unavailable
  the plan is the first three-task template; when the call raises, the response holds no
  bracketed array, the array does not decode, or one of its elements is not a
  dictionary, the plan is the second three-task template. Every task of the plan has
  the keys id, role, prompt and requires\_search.
\<close>

theorem plan_tasks_template_or_llm_array:
  "(plan_tasks l json_loads q = template_plan q ''Implications & open questions for '' \<or>
    plan_tasks l json_loads q = template_plan q ''Implications & recommendations for '' \<or>
    (\<exists>raw m arr. available l \<and> summarize l (planner_prompt q) 300 = Inr raw \<and>
        search_array raw = Some m \<and> json_loads m = Inr arr \<and>
        backfill_plan q 0 arr = Inr (plan_tasks l json_loads q) \<and>
        length (plan_tasks l json_loads q) = length arr)) \<and>
   length (template_plan q i) = 3 \<and>
   (\<forall>t \<in> set (plan_tasks l json_loads q).
       {''id'', ''role'', ''prompt'', ''requires_search''} \<subseteq> fst ` set t) \<and>
   (available l \<and> summarize l (planner_prompt q) 300 = Inr raw \<and>
      search_array raw = Some m \<and> json_loads m = Inr arr \<and>
      backfill_plan q 0 arr = Inr p \<longrightarrow>
        plan_tasks l json_loads q = p \<and> length p = length arr) \<and>
   (available l \<and> summarize l (planner_prompt q) 300 = Inr raw \<and>
      search_array raw = Some m \<and> json_loads m = Inr arr \<and>
      (\<forall>t \<in> set arr. \<exists>d. t = JObj d) \<longrightarrow>
        backfill_plan q 0 arr = Inr (plan_tasks l json_loads q) \<and>
        length (plan_tasks l json_loads q) = length arr) \<and>
   (\<not> available l \<longrightarrow>
      plan_tasks l json_loads q = template_plan q ''Implications & open questions for '') \<and>
   (available l \<and>
      ((\<exists>e. summarize l (planner_prompt q) 300 = Inl e) \<or>
       (\<exists>raw. summarize l (planner_prompt q) 300 = Inr raw \<and>
          (search_array raw = None \<or>
           (\<exists>m. search_array raw = Some m \<and>
              ((\<exists>e. json_loads m = Inl e) \<or>
               (\<exists>arr. json_loads m = Inr arr \<and> (\<exists>t \<in> set arr. \<forall>d. t \<noteq> JObj d))))))) \<longrightarrow>
      plan_tasks l json_loads q = template_plan q ''Implications & recommendations for '')"
proof -
  have shape: "(plan_tasks l json_loads q = template_plan q ''Implications & open questions for '' \<or>
    plan_tasks l json_loads q = template_plan q ''Implications & recommendations for '' \<or>
    (\<exists>raw m arr. available l \<and> summarize l (planner_prompt q) 300 = Inr raw \<and>
        search_array raw = Some m \<and> json_loads m = Inr arr \<and>
        backfill_plan q 0 arr = Inr (plan_tasks l json_loads q) \<and>
        length (plan_tasks l json_loads q) = length arr)) \<and>
   length (template_plan q i) = 3 \<and>
   (\<forall>t \<in> set (plan_tasks l json_loads q).
       {''id'', ''role'', ''prompt'', ''requires_search''} \<subseteq> fst ` set t)"
    by (rule plan_tasks_shape)
  have ret: "available l \<and> summarize l (planner_prompt q) 300 = Inr raw \<and>
      search_array raw = Some m \<and> json_loads m = Inr arr \<and>
      backfill_plan q 0 arr = Inr p \<longrightarrow>
        plan_tasks l json_loads q = p \<and> length p = length arr"
    using plan_tasks_returns_array [of l q raw m json_loads arr p]
      backfill_plan_keys [of q 0 arr p] by simp
  have obj: "available l \<and> summarize l (planner_prompt q) 300 = Inr raw \<and>
      search_array raw = Some m \<and> json_loads m = Inr arr \<and>
      (\<forall>t \<in> set arr. \<exists>d. t = JObj d) \<longrightarrow>
        backfill_plan q 0 arr = Inr (plan_tasks l json_loads q) \<and>
        length (plan_tasks l json_loads q) = length arr"
  proof
    assume a: "available l \<and> summarize l (planner_prompt q) 300 = Inr raw \<and>
      search_array raw = Some m \<and> json_loads m = Inr arr \<and>
      (\<forall>t \<in> set arr. \<exists>d. t = JObj d)"
    then obtain p' where p': "backfill_plan q 0 arr = Inr p'"
      using backfill_plan_objects [of arr q 0] by blast
    with a have "plan_tasks l json_loads q = p'"
      using plan_tasks_returns_array [of l q raw m json_loads arr p'] by simp
    with p' backfill_plan_keys [OF p']
    show "backfill_plan q 0 arr = Inr (plan_tasks l json_loads q) \<and>
        length (plan_tasks l json_loads q) = length arr" by simp
  qed
  have off: "\<not> available l \<longrightarrow>
      plan_tasks l json_loads q = template_plan q ''Implications & open questions for ''"
    by (simp add: plan_tasks_def)
  have fb: "available l \<and>
      ((\<exists>e. summarize l (planner_prompt q) 300 = Inl e) \<or>
       (\<exists>raw. summarize l (planner_prompt q) 300 = Inr raw \<and>
          (search_array raw = None \<or>
           (\<exists>m. search_array raw = Some m \<and>
              ((\<exists>e. json_loads m = Inl e) \<or>
               (\<exists>arr. json_loads m = Inr arr \<and> (\<exists>t \<in> set arr. \<forall>d. t \<noteq> JObj d))))))) \<longrightarrow>
      plan_tasks l json_loads q = template_plan q ''Implications & recommendations for ''"
  proof
    assume a: "available l \<and>
      ((\<exists>e. summarize l (planner_prompt q) 300 = Inl e) \<or>
       (\<exists>raw. summarize l (planner_prompt q) 300 = Inr raw \<and>
          (search_array raw = None \<or>
           (\<exists>m. search_array raw = Some m \<and>
              ((\<exists>e. json_loads m = Inl e) \<or>
               (\<exists>arr. json_loads m = Inr arr \<and> (\<exists>t \<in> set arr. \<forall>d. t \<noteq> JObj d)))))))"
    then have "(\<exists>e. summarize l (planner_prompt q) 300 = Inl e) \<or>
         (\<exists>raw. summarize l (planner_prompt q) 300 = Inr raw \<and>
            (search_array raw = None \<or>
             (\<exists>m. search_array raw = Some m \<and>
                ((\<exists>e. json_loads m = Inl e) \<or>
                 (\<exists>arr e. json_loads m = Inr arr \<and> backfill_plan q 0 arr = Inl e)))))"
      using backfill_plan_not_object [of _ q 0] by blast
    with a show "plan_tasks l json_loads q = template_plan q ''Implications & recommendations for ''"
      using plan_tasks_falls_back [of l q json_loads] by blast
  qed
  note s1 = shape [THEN conjunct1]
    and s2 = shape [THEN conjunct2, THEN conjunct1]
    and s3 = shape [THEN conjunct2, THEN conjunct2]
  show ?thesis
    by (rule conjI [OF s1 conjI [OF s2 conjI [OF s3 conjI [OF ret conjI [OF obj conjI [OF off fb]]]]]])
qed

text \<open>A response with an array of seven empty objects: a plan of seven tasks, t1 to t7.\<close>

theorem plan_tasks_template_or_llm_array_witness:
  "map (\<lambda>t. map_of t ''id'')
     (plan_tasks \<lparr>available = True, summarize = (\<lambda>p n. Inr ''Plan: [{}, {}, {}, {}, {}, {}, {}] done'')\<rparr>
        (\<lambda>s. if s = ''[{}, {}, {}, {}, {}, {}, {}]''
              then Inr [JObj [], JObj [], JObj [], JObj [], JObj [], JObj [], JObj []]
              else Inl JSONDecodeError)
        ''climate change'')
     = [Some (JStr ''t1''), Some (JStr ''t2''), Some (JStr ''t3''), Some (JStr ''t4''),
        Some (JStr ''t5''), Some (JStr ''t6''), Some (JStr ''t7'')] \<and>
   length
     (plan_tasks \<lparr>available = True, summarize = (\<lambda>p n. Inr ''Plan: [{}, {}, {}, {}, {}, {}, {}] done'')\<rparr>
        (\<lambda>s. if s = ''[{}, {}, {}, {}, {}, {}, {}]''
              then Inr [JObj [], JObj [], JObj [], JObj [], JObj [], JObj [], JObj []]
              else Inl JSONDecodeError)
        ''climate change'') = 7"
proof -
  let ?l = "\<lparr>available = True, summarize = (\<lambda>p n. Inr ''Plan: [{}, {}, {}, {}, {}, {}, {}] done'')\<rparr>"
  let ?d = "\<lambda>s. if s = ''[{}, {}, {}, {}, {}, {}, {}]''
              then Inr [JObj [], JObj [], JObj [], JObj [], JObj [], JObj [], JObj []]
              else Inl JSONDecodeError"
  let ?arr = "[JObj [], JObj [], JObj [], JObj [], JObj [], JObj [], JObj []]"
  have a: "available ?l" by simp
  have s: "summarize ?l (planner_prompt ''climate change'') 300
      = Inr ''Plan: [{}, {}, {}, {}, {}, {}, {}] done''" by simp
  have r: "search_array ''Plan: [{}, {}, {}, {}, {}, {}, {}] done''
      = Some ''[{}, {}, {}, {}, {}, {}, {}]''"
    by (simp add: search_array_def)
  have j: "?d ''[{}, {}, {}, {}, {}, {}, {}]'' = Inr ?arr" by simp
  have o: "\<forall>t \<in> set ?arr. \<exists>d. t = JObj d" by simp
  from plan_tasks_template_or_llm_array
    [where l = ?l and json_loads = ?d and q = "''climate change''"
       and raw = "''Plan: [{}, {}, {}, {}, {}, {}, {}] done''"
       and m = "''[{}, {}, {}, {}, {}, {}, {}]''" and arr = ?arr]
    a s r j o
  have b: "backfill_plan ''climate change'' 0 ?arr = Inr (plan_tasks ?l ?d ''climate change'')"
    and n: "length (plan_tasks ?l ?d ''climate change'') = length ?arr"
    by blast+
  from b have "plan_tasks ?l ?d ''climate change''
      = projr (backfill_plan ''climate change'' 0 ?arr)" by simp
  then have "map (\<lambda>t. map_of t ''id'') (plan_tasks ?l ?d ''climate change'')
      = [Some (JStr ''t1''), Some (JStr ''t2''), Some (JStr ''t3''), Some (JStr ''t4''),
        Some (JStr ''t5''), Some (JStr ''t6''), Some (JStr ''t7'')]"
    by (simp add: backfill_task_def setdefault_def digit_char_def)
  with n show ?thesis by simp
qed

text \<open>
  Claim C7 as stated fails: when the capability answers with the empty array, which
  \<^verbatim>\<open>json.loads\<close> decodes to the empty list, the plan is empty.
\<close>

theorem plan_tasks_empty_array_counterexample:
  "plan_tasks \<lparr>available = True, summarize = (\<lambda>p n. Inr ''[]'')\<rparr>
      (\<lambda>s. if s = ''[]'' then Inr [] else Inl JSONDecodeError) ''climate change'' = [] \<and>
   \<not> (3 \<le> length ([] :: pydict list))"
  by (simp add: plan_tasks_def plan_from_llm_def search_array_def)

section \<open>Snippets of the collector\<close>

lemma rsplit_space_head_last_space:
  assumes "CHR '' '' \<in> set p"
  shows "\<exists>w. p = rsplit_space_head p @ CHR '' '' # w \<and> CHR '' '' \<notin> set w"
proof -
  let ?d = "dropWhile (\<lambda>c. c \<noteq> CHR '' '') (rev p)"
  let ?t = "takeWhile (\<lambda>c. c \<noteq> CHR '' '') (rev p)"
  from assms have "?d \<noteq> []" by auto
  then obtain x xs where d: "?d = x # xs" by (cases ?d) auto
  have "x = hd ?d" using d by simp
  also have "\<dots> = CHR '' ''" using hd_dropWhile [of "\<lambda>c. c \<noteq> CHR '' ''" "rev p"] \<open>?d \<noteq> []\<close> by simp
  finally have x: "x = CHR '' ''" .
  have "rev p = ?t @ ?d" by simp
  with d have "rev p = ?t @ x # xs" by simp
  then have "rev (rev p) = rev (?t @ x # xs)" by simp
  then have p: "p = rev xs @ x # rev ?t" by simp
  have h: "rsplit_space_head p = rev xs"
    using assms d by (simp add: rsplit_space_head_def)
  have "CHR '' '' \<notin> set (rev ?t)"
    using set_takeWhileD [of "CHR '' ''" "\<lambda>c. c \<noteq> CHR '' ''" "rev p"] by auto
  with p h x show ?thesis by metis
qed

text \<open>
  Claim C8, as amended. The snippet of every item the collector produces is
  \<^verbatim>\<open>_norm_text\<close> of some text with budget 400: whitespace is collapsed; a collapsed
  text of at most 400 characters is kept; a longer one is cut to its first 400
  characters, then to what stands before the last space among them (or left at 400
  characters when they hold no space), and ``...'' is appended. The part before the
  ellipsis has at most 400 characters, the snippet at most 403.
\<close>

theorem snippet_budget_plus_ellipsis:
  "(length (py_join '' '' (py_split t)) \<le> 400 \<longrightarrow> norm_text t 400 = py_join '' '' (py_split t)) \<and>
   (400 < length (py_join '' '' (py_split t)) \<longrightarrow>
      norm_text t 400 = rsplit_space_head (take 400 (py_join '' '' (py_split t))) @ ''...'') \<and>
   length (rsplit_space_head p) \<le> length p \<and>
   (CHR '' '' \<in> set p \<longrightarrow>
      (\<exists>w. p = rsplit_space_head p @ CHR '' '' # w \<and> CHR '' '' \<notin> set w)) \<and>
   (CHR '' '' \<notin> set p \<longrightarrow> rsplit_space_head p = p) \<and>
   length (norm_text t 400) \<le> 403 \<and>
   (run_task_search_and_scrape h search scrape task_prompt top_n = Inr out \<longrightarrow>
      (\<forall>e \<in> set out. length (snippet e) \<le> 403))"
proof -
  have 1: "length (py_join '' '' (py_split t)) \<le> 400 \<longrightarrow>
      norm_text t 400 = py_join '' '' (py_split t)"
    by (simp add: norm_text_cases)
  have 2: "400 < length (py_join '' '' (py_split t)) \<longrightarrow>
      norm_text t 400 = rsplit_space_head (take 400 (py_join '' '' (py_split t))) @ ''...''"
    by (simp add: norm_text_cases)
  have 3: "length (rsplit_space_head p) \<le> length p"
    by (rule length_rsplit_space_head)
  have 4: "CHR '' '' \<in> set p \<longrightarrow>
      (\<exists>w. p = rsplit_space_head p @ CHR '' '' # w \<and> CHR '' '' \<notin> set w)"
    using rsplit_space_head_last_space by blast
  have 5: "CHR '' '' \<notin> set p \<longrightarrow> rsplit_space_head p = p"
    by (simp add: rsplit_space_head_def)
  have 6: "length (norm_text t 400) \<le> 403" for t
    using norm_text_length [of t 400] by simp
  have 7: "run_task_search_and_scrape h search scrape task_prompt top_n = Inr out \<longrightarrow>
      (\<forall>e \<in> set out. length (snippet e) \<le> 403)"
  proof
    assume "run_task_search_and_scrape h search scrape task_prompt top_n = Inr out"
    then have "collect_hits h scrape (search task_prompt top_n) [] [] = Inr out"
      by (simp add: run_task_search_and_scrape_def)
    from collect_hits_snippets [OF this]
    have "\<forall>e \<in> set out. \<exists>t. snippet e = norm_text t 400" by simp
    with 6 show "\<forall>e \<in> set out. length (snippet e) \<le> 403" by metis
  qed
  from 1 2 3 4 5 6 [of t] 7 show ?thesis by blast
qed

theorem snippet_budget_plus_ellipsis_witness:
  "run_task_search_and_scrape (\<lambda>t. t)
     (\<lambda>q n. [\<lparr>hit_id = ''h1'', hit_title = ''Title'', hit_url = ''https://example.org/a'',
               hit_snippet = ''  Ice   sheets are  melting '', hit_domain = ''example.org'',
               hit_score = Some 1\<rparr>])
     (\<lambda>u. Inr \<lparr>page_title = ''Page'', page_text = ''body''\<rparr>) ''task'' 6
   = Inr [\<lparr>source_id = ''h1'', url = ''https://example.org/a'', title = ''Title'',
           snippet = ''Ice sheets are melting'', text = ''body'', domain = ''example.org'',
           score = 1, relevance = None\<rparr>] \<and>
   length ''Ice sheets are melting'' \<le> 403"
  using snippet_budget_plus_ellipsis [of "''  Ice   sheets are  melting ''" "[]" "\<lambda>t. t"
     "\<lambda>q n. [\<lparr>hit_id = ''h1'', hit_title = ''Title'', hit_url = ''https://example.org/a'',
               hit_snippet = ''  Ice   sheets are  melting '', hit_domain = ''example.org'',
               hit_score = Some 1\<rparr>]"
     "\<lambda>u. Inr \<lparr>page_title = ''Page'', page_text = ''body''\<rparr>" "''task''" 6]
  by (simp add: run_task_search_and_scrape_def hit_evidence_def norm_text_def py_split_def
      is_space_def)

text \<open>
  Claim C8 as stated fails: a hit whose snippet is one word of 401 characters gets a
  snippet of 403 characters.
\<close>

theorem snippet_403_counterexample:
  "run_task_search_and_scrape (\<lambda>t. t)
     (\<lambda>q n. [\<lparr>hit_id = ''h1'', hit_title = ''Title'', hit_url = ''https://example.org/a'',
               hit_snippet = replicate 401 CHR ''a'', hit_domain = ''example.org'',
               hit_score = Some 1\<rparr>])
     (\<lambda>u. Inr \<lparr>page_title = ''Page'', page_text = ''body''\<rparr>) ''task'' 6
   = Inr [\<lparr>source_id = ''h1'', url = ''https://example.org/a'', title = ''Title'',
           snippet = replicate 400 CHR ''a'' @ ''...'', text = ''body'', domain = ''example.org'',
           score = 1, relevance = None\<rparr>] \<and>
   length (replicate 400 CHR ''a'' @ ''...'') = 403"
proof -
  have ns: "\<forall>c \<in> set (replicate 401 CHR ''a''). \<not> is_space c"
    by (simp add: is_space_def)
  have ne: "replicate 401 CHR ''a'' \<noteq> []" by simp
  have sp: "py_split (replicate 401 CHR ''a'') = [replicate 401 CHR ''a'']"
    using py_split_no_space [OF ns ne] .
  have "norm_text (replicate 401 CHR ''a'') 400 = replicate 400 CHR ''a'' @ ''...''"
    unfolding norm_text_cases sp
    by (simp add: rsplit_space_head_def)
  then show ?thesis
    by (simp add: run_task_search_and_scrape_def hit_evidence_def)
qed

section \<open>The endpoint\<close>

text \<open>
  Claim C9. A request with neither query nor url reaches
  \<^verbatim>\<open>raise HTTPException(status_code=400, ...)\<close> inside the \<^verbatim>\<open>try\<close> block; the
  handler \<^verbatim>\<open>except Exception\<close> catches it and raises status 500 in its place. The
  theorem evaluates the endpoint on that request.
\<close>

theorem agentic_detect_neither_field_is_500:
  "agentic_detect str_exn url_article_analysis deep_research \<lparr>req_query = None, req_url = None\<rparr>
     = Inl (HTTPException 500 (''Agentic detect failed: '' @
         str_exn (HTTPException 400 (''Provide either '' @ quoted ''url'' @ '' or '' @ quoted ''query'' @ ''.'')))) \<and>
   status_code (agentic_detect str_exn url_article_analysis deep_research
      \<lparr>req_query = None, req_url = None\<rparr>) = 500 \<and>
   status_code (agentic_detect_body url_article_analysis deep_research
      \<lparr>req_query = None, req_url = None\<rparr>) = 400"
  by (simp add: agentic_detect_def agentic_detect_body_def truthy_str_def status_code_def)

section \<open>Tasks that need no search\<close>

lemma analyze_keys:
  assumes "analyze l bg art = Inr short"
  shows "map fst short = [''summary'', ''evidence'', ''contradictions'', ''credibility_score'',
     ''knowledge_graph'', ''stance'', ''bias_note'']"
  using assms
  by (auto simp: analyze_def Let_def split: sum.splits)

lemma analyze_no_snippets:
  assumes "analyze l bg art = Inr short"
  shows "map_of short ''snippets'' = None"
proof -
  have "''snippets'' \<notin> set (map fst short)"
    unfolding analyze_keys [OF assms] by simp
  then show ?thesis by (simp add: map_of_eq_None_iff)
qed

lemma task_evidence_no_search_eq:
  assumes "\<not> requires_search task"
  shows "task_evidence c q n k task =
     (case analyze (research_llm c) (build_graph c)
             \<lparr>ra_title = q, ra_url = [],
               ra_text = (case map_of task ''prompt'' of None \<Rightarrow> JStr [] | Some v \<Rightarrow> v)\<rparr> of
        Inl e \<Rightarrow> Inl e
      | Inr short \<Rightarrow> Inr [])"
proof (cases "analyze (research_llm c) (build_graph c)
             \<lparr>ra_title = q, ra_url = [],
               ra_text = (case map_of task ''prompt'' of None \<Rightarrow> JStr [] | Some v \<Rightarrow> v)\<rparr>")
  case (Inl e)
  with assms show ?thesis by (simp add: task_evidence_def)
next
  case (Inr short)
  from analyze_no_snippets [OF Inr] assms Inr show ?thesis
    by (simp add: task_evidence_def slice_upto_def)
qed

lemma task_evidence_no_search:
  assumes "\<not> requires_search task" "task_evidence c q n k task = Inr ev"
  shows "ev = []"
proof -
  from assms obtain short where a: "analyze (research_llm c) (build_graph c)
      \<lparr>ra_title = q, ra_url = [],
        ra_text = (case map_of task ''prompt'' of None \<Rightarrow> JStr [] | Some v \<Rightarrow> v)\<rparr> = Inr short"
    by (auto simp: task_evidence_def split: sum.splits)
  from analyze_no_snippets [OF a] assms a show ?thesis
    by (simp add: task_evidence_def slice_upto_def)
qed

lemma run_tasks_no_search:
  assumes "run_tasks c q n k plan = Inr task_results"
  shows "\<forall>(task, ev) \<in> set task_results. \<not> requires_search task \<longrightarrow> ev = []"
  using assms
proof (induction plan arbitrary: task_results)
  case Nil
  then show ?case by simp
next
  case (Cons task plan)
  from Cons.prems obtain ev rest where te: "task_evidence c q n k task = Inr ev"
    and rt: "run_tasks c q n k plan = Inr rest" and tr: "task_results = (task, ev) # rest"
    by (auto split: sum.splits)
  from task_evidence_no_search [OF _ te] have "\<not> requires_search task \<longrightarrow> ev = []" by blast
  with Cons.IH [OF rt] tr show ?case by simp
qed

text \<open>
  Claim C10. \<^verbatim>\<open>ResearchAgent.analyze\<close> returns a dictionary with seven keys, none of
  them \<^verbatim>\<open>snippets\<close>; so for a task whose \<^verbatim>\<open>requires_search\<close> is false the loop
  body of \<^verbatim>\<open>run\<close> raises what the analysis raises and otherwise produces the empty
  evidence list, and every such task in the results of \<^verbatim>\<open>run\<close> has no evidence.
\<close>

theorem no_search_task_evidence_empty:
  "(analyze l bg art = Inr short \<longrightarrow>
      map fst short = [''summary'', ''evidence'', ''contradictions'', ''credibility_score'',
        ''knowledge_graph'', ''stance'', ''bias_note''] \<and>
      map_of short ''snippets'' = None) \<and>
   (\<not> requires_search task \<longrightarrow>
      task_evidence c q n k task =
        (case analyze (research_llm c) (build_graph c)
                \<lparr>ra_title = q, ra_url = [],
                  ra_text = (case map_of task ''prompt'' of None \<Rightarrow> JStr [] | Some v \<Rightarrow> v)\<rparr> of
           Inl e \<Rightarrow> Inl e
         | Inr short \<Rightarrow> Inr [])) \<and>
   (\<not> requires_search task \<and> task_evidence c q n k task = Inr ev \<longrightarrow> ev = []) \<and>
   (run_tasks c q n k plan = Inr task_results \<longrightarrow>
      (\<forall>(task, ev) \<in> set task_results. \<not> requires_search task \<longrightarrow> ev = []))"
proof -
  have 0: "\<not> requires_search task \<longrightarrow>
      task_evidence c q n k task =
        (case analyze (research_llm c) (build_graph c)
                \<lparr>ra_title = q, ra_url = [],
                  ra_text = (case map_of task ''prompt'' of None \<Rightarrow> JStr [] | Some v \<Rightarrow> v)\<rparr> of
           Inl e \<Rightarrow> Inl e
         | Inr short \<Rightarrow> Inr [])"
    using task_evidence_no_search_eq [of task c q n k] by simp
  have 1: "analyze l bg art = Inr short \<longrightarrow>
      map fst short = [''summary'', ''evidence'', ''contradictions'', ''credibility_score'',
        ''knowledge_graph'', ''stance'', ''bias_note''] \<and>
      map_of short ''snippets'' = None"
    using analyze_keys [of l bg art short] analyze_no_snippets [of l bg art short] by simp
  have 2: "\<not> requires_search task \<and> task_evidence c q n k task = Inr ev \<longrightarrow> ev = []"
    using task_evidence_no_search [of task c q n k ev] by simp
  have 3: "run_tasks c q n k plan = Inr task_results \<longrightarrow>
      (\<forall>(task, ev) \<in> set task_results. \<not> requires_search task \<longrightarrow> ev = [])"
    using run_tasks_no_search [of c q n k plan task_results] by simp
  from 1 0 2 3 show ?thesis by (intro conjI)
qed

text \<open>
  The third task of a plan with offline collaborators: the analysis returns, and the
  task has no evidence.
\<close>

theorem no_search_task_evidence_empty_witness:
  "run_tasks
     \<lparr>hash_text = (\<lambda>t. t),
      py_str = (\<lambda>v. case v of Some (JStr s) \<Rightarrow> s | _ \<Rightarrow> ''None''),
      search_tool = (\<lambda>p n. []),
      scraper = (\<lambda>u. Inr \<lparr>page_title = u, page_text = []\<rparr>),
      research_llm = \<lparr>ra_summarize = (\<lambda>t. Inr (''(mock) '' @ t)),
        ra_analyze_claims = (\<lambda>claim snips. Inr \<lparr>sr_support = 1 / 2, sr_stance = JStr ''mixed'',
          sr_note = ''(heuristic fallback)''\<rparr>),
        ra_client = None\<rparr>,
      build_graph = (\<lambda>t. Inr (JObj [(''nodes'', JArr []), (''links'', JArr [])]))\<rparr>
     ''vaccine safety'' 4 6
     [[(''id'', JStr ''t3''), (''role'', JStr ''implications''),
       (''prompt'', JStr ''Implications for vaccine safety''),
       (''requires_search'', JBool False)]]
   = Inr [([(''id'', JStr ''t3''), (''role'', JStr ''implications''),
       (''prompt'', JStr ''Implications for vaccine safety''),
       (''requires_search'', JBool False)], [])]"
proof -
  let ?c = "\<lparr>hash_text = (\<lambda>t. t),
      py_str = (\<lambda>v. case v of Some (JStr s) \<Rightarrow> s | _ \<Rightarrow> ''None''),
      search_tool = (\<lambda>p n. []),
      scraper = (\<lambda>u. Inr \<lparr>page_title = u, page_text = []\<rparr>),
      research_llm = \<lparr>ra_summarize = (\<lambda>t. Inr (''(mock) '' @ t)),
        ra_analyze_claims = (\<lambda>claim snips. Inr \<lparr>sr_support = 1 / 2, sr_stance = JStr ''mixed'',
          sr_note = ''(heuristic fallback)''\<rparr>),
        ra_client = None\<rparr>,
      build_graph = (\<lambda>t. Inr (JObj [(''nodes'', JArr []), (''links'', JArr [])]))\<rparr>"
  let ?t = "[(''id'', JStr ''t3''), (''role'', JStr ''implications''),
       (''prompt'', JStr ''Implications for vaccine safety''),
       (''requires_search'', JBool False)]"
  have ns: "\<not> requires_search ?t"
    by (simp add: requires_search_def truthy_def)
  have "\<exists>ev. task_evidence ?c ''vaccine safety'' 4 6 ?t = Inr ev"
    by (simp add: task_evidence_def ns analyze_def stripped_text_def truthy_def Let_def
        slice_upto_def)
  then obtain ev where te: "task_evidence ?c ''vaccine safety'' 4 6 ?t = Inr ev" ..
  from no_search_task_evidence_empty [of _ _ _ _ ?t ?c "''vaccine safety''" 4 6 ev] ns te
  have "ev = []" by blast
  with te show ?thesis by simp
qed

end
